(* ===== verification/Go_Prelude.thy ===== *)
theory Go_Prelude
  imports Main "HOL-Library.Word" "HOL-Library.Multiset"
begin

text \<open>
  What every component of the development shares: the integer types of Go, the outcome of
  a call (a value, a returned error or a panic), loops over a range, the unspecified
  iteration order of Go maps, decimal formatting (\<open>%d\<close>) and the contract of an
  injective key encoding, which the code relies on wherever it builds a map key with
  \<open>fmt.Sprintf\<close>.
\<close>

section \<open>Integers\<close>

text \<open>
  \<open>int32\<close> and \<open>uint32\<close> are 32-bit words (read with \<open>sint\<close> and \<open>uint\<close>), \<open>byte\<close> is
  an 8-bit word. \<open>int64\<close> and \<open>int\<close> (64 bits wide on every platform the program is
  built for) are integers, and \<open>wrap64\<close> is applied where an operation can leave the range.
\<close>

type_synonym i32 = "32 word"
type_synonym u32 = "32 word"
type_synonym byte = "8 word"
type_synonym bytes = "byte list"
type_synonym error = string

definition max_int64 :: int where
  "max_int64 = 9223372036854775807"

definition wrap64 :: "int \<Rightarrow> int" where
  "wrap64 x = (x + 9223372036854775808) mod 18446744073709551616 - 9223372036854775808"

text \<open>Go's integer division truncates towards zero; the divisor is never 0 here.\<close>

definition go_quot :: "int \<Rightarrow> int \<Rightarrow> int" where
  "go_quot a b = sgn a * sgn b * (\<bar>a\<bar> div \<bar>b\<bar>)"

definition go_rem :: "int \<Rightarrow> int \<Rightarrow> int" where
  "go_rem a b = a - b * go_quot a b"

lemma wrap64_id: "- 9223372036854775808 \<le> x \<Longrightarrow> x \<le> max_int64 \<Longrightarrow> wrap64 x = x"
  by (simp add: wrap64_def max_int64_def)

lemma wrap64_le_max: "wrap64 x \<le> max_int64"
  using pos_mod_bound [of "18446744073709551616::int" "x + 9223372036854775808"]
  by (simp add: wrap64_def max_int64_def)

lemma wrap64_ge_min: "- 9223372036854775808 \<le> wrap64 x"
  by (simp add: wrap64_def)

lemma go_quot_nonneg: "0 \<le> a \<Longrightarrow> 0 < b \<Longrightarrow> go_quot a b = a div b"
  by (auto simp: go_quot_def sgn_if)

lemma go_rem_nonneg: "0 \<le> a \<Longrightarrow> 0 < b \<Longrightarrow> go_rem a b = a mod b"
  by (simp add: go_rem_def go_quot_nonneg minus_mult_div_eq_mod)

text \<open>A small count, kept as an \<open>int32\<close>, reads as itself.\<close>

lemma sint_small_nat: "i < 2147483648 \<Longrightarrow> sint (word_of_nat i :: i32) = int i"
  by (simp add: signed_of_nat signed_take_bit_int_eq_self)

section \<open>Outcomes\<close>

text \<open>
  A Go call returns, returns an error, or panics. No handler of the program recovers, so
  a panic is the end of the process.
\<close>

datatype go_panic = Index_Out_Of_Range | Slice_Bounds | Divide_By_Zero | Make_Slice_Size | Interface_Conversion

datatype ('e, 'a) outcome = Return 'a | Fail 'e | Panic go_panic

fun bind_outcome :: "('e, 'a) outcome \<Rightarrow> ('a \<Rightarrow> ('e, 'b) outcome) \<Rightarrow> ('e, 'b) outcome" where
  "bind_outcome (Return a) f = f a"
| "bind_outcome (Fail e) f = Fail e"
| "bind_outcome (Panic p) f = Panic p"

text \<open>\<open>for x in xs { s = body x s }\<close>, left at the first error or panic.\<close>

primrec for_each :: "('x \<Rightarrow> 's \<Rightarrow> ('e, 's) outcome) \<Rightarrow> 'x list \<Rightarrow> 's \<Rightarrow> ('e, 's) outcome" where
  "for_each body [] s = Return s"
| "for_each body (x # xs) s = bind_outcome (body x s) (for_each body xs)"

text \<open>Reading and writing a slice element, with the bounds check of the runtime.\<close>

definition slice_get :: "'a list \<Rightarrow> int \<Rightarrow> ('e, 'a) outcome" where
  "slice_get xs i =
     (if 0 \<le> i \<and> i < int (length xs) then Return (xs ! nat i) else Panic Index_Out_Of_Range)"

definition slice_set :: "'a list \<Rightarrow> int \<Rightarrow> 'a \<Rightarrow> ('e, 'a list) outcome" where
  "slice_set xs i x =
     (if 0 \<le> i \<and> i < int (length xs) then Return (xs[nat i := x]) else Panic Index_Out_Of_Range)"

named_theorems outcome_elims \<open>destruction of a bind that returned\<close>

lemma bind_outcome_Return [outcome_elims]:
  "bind_outcome m f = Return b \<longleftrightarrow> (\<exists>a. m = Return a \<and> f a = Return b)"
  by (cases m) auto

lemma bind_outcome_assoc:
  "bind_outcome (bind_outcome m f) g = bind_outcome m (\<lambda>x. bind_outcome (f x) g)"
  by (cases m) auto

lemma for_each_append:
  "for_each body (xs @ ys) s = bind_outcome (for_each body xs s) (for_each body ys)"
  by (induction xs arbitrary: s)
    (auto simp: bind_outcome_assoc intro!: arg_cong [where f = "bind_outcome _"])

text \<open>
  The loop rule: an invariant that each iteration keeps, and that lets each iteration
  return, holds at the end, and the loop returns.
\<close>

lemma for_each_invariant:
  assumes "I s"
    and "\<And>x s. x \<in> set xs \<Longrightarrow> I s \<Longrightarrow> \<exists>s'. body x s = Return s' \<and> I s'"
  shows "\<exists>s'. for_each body xs s = Return s' \<and> I s'"
  using assms
proof (induction xs arbitrary: s)
  case Nil
  then show ?case by simp
next
  case (Cons x xs)
  obtain s1 where s1: "body x s = Return s1" "I s1"
    using Cons.prems by (meson list.set_intros(1))
  have "\<exists>s'. for_each body xs s1 = Return s' \<and> I s'"
    using Cons.prems(2) by (intro Cons.IH s1(2)) (meson list.set_intros(2))
  with s1 show ?case by simp
qed

section \<open>The iteration order of Go maps\<close>

text \<open>
  A \<open>range\<close> over a Go map visits every entry once, in an order the language leaves open,
  and \<open>rand.Shuffle\<close> permutes a slice in an unpredictable way. Both are modelled by a list
  of choices: each choice names the next element among those that are left. Any list of
  choices gives a permutation, and every permutation arises from some choices.
\<close>

type_synonym choices = "nat list"

fun pick_order :: "choices \<Rightarrow> 'a list \<Rightarrow> 'a list" where
  "pick_order [] xs = xs"
| "pick_order (c # cs) [] = []"
| "pick_order (c # cs) (x # xs) =
     (let ys = x # xs; i = c mod length ys
      in ys ! i # pick_order cs (take i ys @ drop (Suc i) ys))"

lemma mset_remove_nth:
  "i < length xs \<Longrightarrow> add_mset (xs ! i) (mset (take i xs @ drop (Suc i) xs)) = mset xs"
  by (metis Cons_nth_drop_Suc append_take_drop_id mset.simps(2) mset_append
      union_mset_add_mset_right)

lemma mset_pick_order [simp]: "mset (pick_order cs xs) = mset xs"
proof (induction cs xs rule: pick_order.induct)
  case (3 c cs x xs)
  let ?ys = "x # xs" and ?i = "c mod length (x # xs)"
  have "mset (pick_order (c # cs) ?ys) = add_mset (?ys ! ?i) (mset (take ?i ?ys @ drop (Suc ?i) ?ys))"
    using "3.IH" [OF refl refl] by (simp only: pick_order.simps Let_def mset.simps)
  also have "\<dots> = mset ?ys"
    by (rule mset_remove_nth) simp
  finally show ?case .
qed simp_all

lemma set_pick_order [simp]: "set (pick_order cs xs) = set xs"
  by (metis mset_pick_order set_mset_mset)

lemma length_pick_order [simp]: "length (pick_order cs xs) = length xs"
  by (metis mset_pick_order size_mset)

lemma distinct_pick_order [simp]: "distinct (pick_order cs xs) = distinct xs"
  by (metis mset_pick_order mset_eq_imp_distinct_iff)

lemma pick_order_reaches_all: "mset ys = mset xs \<Longrightarrow> \<exists>cs. pick_order cs xs = ys"
proof (induction ys arbitrary: xs)
  case Nil
  then have "pick_order [] xs = []" by simp
  then show ?case ..
next
  case (Cons y ys)
  then have "y \<in> set xs" by (metis list.set_intros(1) set_mset_mset)
  then obtain i where i: "i < length xs" "xs ! i = y" by (auto simp: in_set_conv_nth)
  let ?r = "take i xs @ drop (Suc i) xs"
  have "mset ys = mset ?r"
    using mset_remove_nth [OF i(1)] Cons.prems i(2) by (metis add_mset_add_single
        add_right_cancel mset.simps(2))
  then obtain cs where "pick_order cs ?r = ys" using Cons.IH by blast
  then have "pick_order (i # cs) xs = y # ys"
    using i by (cases xs) (simp_all add: Let_def)
  then show ?case ..
qed

end
