(* ===== verification/Go_Maps.thy ===== *)
theory Go_Maps
  imports Go_Prelude "HOL-Library.AList"
begin

text \<open>
  Go maps as association lists with distinct keys (so that \<open>len\<close>, \<open>range\<close> and an
  executable lookup are all at hand), decimal formatting, and the contract of a key
  encoding: the program builds its string keys with \<open>fmt.Sprintf\<close>, and a map indexed by
  such keys behaves as a map indexed by the tuple only if the encoding is injective.
\<close>

section \<open>Maps\<close>

type_synonym ('k, 'v) gomap = "('k \<times> 'v) list"

definition gm_set :: "'k \<Rightarrow> 'v \<Rightarrow> ('k, 'v) gomap \<Rightarrow> ('k, 'v) gomap" where
  "gm_set k v m = AList.update k v m"

definition gm_get :: "('k, 'v) gomap \<Rightarrow> 'k \<Rightarrow> 'v option" where
  "gm_get m k = map_of m k"

definition gm_del :: "'k \<Rightarrow> ('k, 'v) gomap \<Rightarrow> ('k, 'v) gomap" where
  "gm_del k m = AList.delete k m"

definition gm_wf :: "('k, 'v) gomap \<Rightarrow> bool" where
  "gm_wf m \<longleftrightarrow> distinct (map fst m)"

text \<open>The entries in the order one \<open>range\<close> loop visits them.\<close>

definition gm_range :: "choices \<Rightarrow> ('k, 'v) gomap \<Rightarrow> ('k \<times> 'v) list" where
  "gm_range cs m = pick_order cs m"

named_theorems gm_simps \<open>lookup laws of Go maps\<close>

lemma gm_get_set [gm_simps]: "gm_get (gm_set k v m) k' = (if k' = k then Some v else gm_get m k')"
  by (simp add: gm_get_def gm_set_def update_conv')

lemma gm_get_del [gm_simps]: "gm_get (gm_del k m) k' = (if k' = k then None else gm_get m k')"
  by (simp add: gm_get_def gm_del_def delete_conv')

lemma gm_get_empty [gm_simps]: "gm_get [] k = None"
  by (simp add: gm_get_def)

lemma gm_wf_empty [simp, intro]: "gm_wf []"
  by (simp add: gm_wf_def)

lemma gm_wf_set [simp, intro]: "gm_wf m \<Longrightarrow> gm_wf (gm_set k v m)"
  by (simp add: gm_wf_def gm_set_def distinct_update)

lemma gm_wf_del [simp, intro]: "gm_wf m \<Longrightarrow> gm_wf (gm_del k m)"
  by (simp add: gm_wf_def gm_del_def distinct_delete)

lemma gm_get_iff: "gm_wf m \<Longrightarrow> gm_get m k = Some v \<longleftrightarrow> (k, v) \<in> set m"
  by (simp add: gm_wf_def gm_get_def)

lemma gm_get_SomeD: "gm_get m k = Some v \<Longrightarrow> (k, v) \<in> set m"
  by (simp add: gm_get_def map_of_SomeD)

lemma gm_get_None_iff: "gm_get m k = None \<longleftrightarrow> k \<notin> fst ` set m"
  by (simp add: gm_get_def map_of_eq_None_iff)

lemma gm_keys_set [simp]: "fst ` set (gm_set k v m) = insert k (fst ` set m)"
  using dom_update [of k v m] by (simp add: gm_set_def)

lemma gm_keys_del [simp]: "fst ` set (gm_del k m) = fst ` set m - {k}"
  by (auto simp: gm_del_def AList.delete_eq)

lemma length_gm_set: "length (gm_set k v m) = (if k \<in> fst ` set m then length m else Suc (length m))"
  unfolding gm_set_def by (induction m) auto

lemma length_gm_del: "length (gm_del k m) \<le> length m"
  by (simp add: gm_del_def length_delete_le)

lemma length_gm_del_less: "k \<in> fst ` set m \<Longrightarrow> length (gm_del k m) < length m"
  by (auto simp: gm_del_def AList.delete_eq intro: length_filter_less)

lemma set_gm_set_subset: "set (gm_set k v m) \<subseteq> insert (k, v) (set m)"
  unfolding gm_set_def by (induction m) auto

lemma set_gm_set: "gm_wf m \<Longrightarrow> set (gm_set k v m) = insert (k, v) {e \<in> set m. fst e \<noteq> k}"
proof -
  assume "gm_wf m"
  then have "gm_wf (gm_set k v m)" by simp
  then have "(k', v') \<in> set (gm_set k v m) \<longleftrightarrow> (k', v') \<in> insert (k, v) {e \<in> set m. fst e \<noteq> k}"
    for k' v'
    using \<open>gm_wf m\<close> by (auto simp: gm_get_iff [symmetric] gm_simps)
  then show ?thesis by auto
qed

lemma set_gm_del: "set (gm_del k m) = {e \<in> set m. fst e \<noteq> k}"
  by (auto simp: gm_del_def AList.delete_eq)

text \<open>Filling a map in a loop: the keys of the loop, and the keys it does not touch.\<close>

lemma gm_get_fold_set_other:
  "key \<notin> k ` set xs \<Longrightarrow> gm_get (fold (\<lambda>x. gm_set (k x) (v x)) xs m) key = gm_get m key"
  by (induction xs arbitrary: m) (auto simp: gm_simps)

lemma gm_get_fold_set:
  "x \<in> set xs \<Longrightarrow> (\<And>y. y \<in> set xs \<Longrightarrow> k y = k x \<Longrightarrow> v y = v x) \<Longrightarrow>
   gm_get (fold (\<lambda>x. gm_set (k x) (v x)) xs m) (k x) = Some (v x)"
proof (induction xs arbitrary: m rule: rev_induct)
  case (snoc y xs)
  show ?case
  proof (cases "k y = k x")
    case True
    then show ?thesis using snoc.prems(2) [of y] by (simp add: gm_simps)
  next
    case False
    then have x: "x \<in> set xs" using snoc.prems(1) by auto
    have "gm_get (fold (\<lambda>x. gm_set (k x) (v x)) xs m) (k x) = Some (v x)"
      by (rule snoc.IH [OF x], rule snoc.prems(2)) simp_all
    then show ?thesis using False by (simp add: gm_simps)
  qed
qed simp

lemma set_gm_range [simp]: "set (gm_range cs m) = set m"
  by (simp add: gm_range_def)

lemma length_gm_range [simp]: "length (gm_range cs m) = length m"
  by (simp add: gm_range_def)

lemma mset_gm_range [simp]: "mset (gm_range cs m) = mset m"
  by (simp add: gm_range_def)

lemma gm_wf_range [simp]: "gm_wf (gm_range cs m) = gm_wf m"
proof -
  have "mset (map fst (gm_range cs m)) = mset (map fst m)"
    by (simp add: gm_range_def)
  then show ?thesis unfolding gm_wf_def by (rule mset_eq_imp_distinct_iff)
qed

section \<open>Decimal formatting\<close>

definition digit_char :: "nat \<Rightarrow> char" where
  "digit_char d = char_of (48 + d)"

fun nat_digits :: "nat \<Rightarrow> string" where
  "nat_digits n = (if n < 10 then [digit_char n] else nat_digits (n div 10) @ [digit_char (n mod 10)])"

declare nat_digits.simps [simp del]

text \<open>\<open>fmt.Sprintf("%d", i)\<close>.\<close>

definition fmt_d :: "int \<Rightarrow> string" where
  "fmt_d i = (if i < 0 then CHR ''-'' # nat_digits (nat (- i)) else nat_digits (nat i))"

definition digits_value :: "string \<Rightarrow> nat" where
  "digits_value = foldl (\<lambda>a c. 10 * a + (of_char c - 48)) 0"

lemma of_digit_char: "d < 10 \<Longrightarrow> (of_char (digit_char d) :: nat) = 48 + d"
  by (simp add: digit_char_def)

lemma digits_value_nat_digits: "digits_value (nat_digits n) = n"
proof (induction n rule: nat_digits.induct)
  case (1 n)
  then show ?case
    by (cases "n < 10") (simp_all add: nat_digits.simps [of n] digits_value_def of_digit_char)
qed

lemma nat_digits_codes: "c \<in> set (nat_digits n) \<Longrightarrow> 48 \<le> (of_char c :: nat) \<and> (of_char c :: nat) < 58"
proof (induction n rule: nat_digits.induct)
  case (1 n)
  then show ?case
    by (cases "n < 10") (auto simp: nat_digits.simps [of n] of_digit_char)
qed

lemma nat_digits_inject [simp]: "nat_digits m = nat_digits n \<longleftrightarrow> m = n"
  by (metis digits_value_nat_digits)

lemma nat_digits_nonempty [simp]: "nat_digits n \<noteq> []"
  by (simp add: nat_digits.simps [of n])

lemma nat_digits_no_sign [simp]: "CHR ''-'' \<notin> set (nat_digits n)"
  by (auto dest: nat_digits_codes)

lemma nat_digits_hd [simp]: "nat_digits n \<noteq> CHR ''-'' # xs" "nat_digits n @ ys \<noteq> CHR ''-'' # xs"
  using nat_digits_no_sign [of n] by (cases "nat_digits n"; auto)+

lemmas nat_digits_hd' [simp] = nat_digits_hd [THEN not_sym]

lemma fmt_d_inject [simp]: "fmt_d i = fmt_d j \<longleftrightarrow> i = j"
  by (cases "i < 0"; cases "j < 0") (auto simp: fmt_d_def)

lemma fmt_d_no_colon [simp]: "CHR '':'' \<notin> set (fmt_d i)"
  by (auto simp: fmt_d_def dest: nat_digits_codes)

lemma fmt_d_no_slash [simp]: "CHR ''/'' \<notin> set (fmt_d i)"
  by (auto simp: fmt_d_def dest: nat_digits_codes)

lemma split_first:
  "xs @ c # r = ys @ c # r' \<Longrightarrow> c \<notin> set xs \<Longrightarrow> c \<notin> set ys \<Longrightarrow> xs = ys \<and> r = r'"
  by (induction xs arbitrary: ys) (auto simp: Cons_eq_append_conv)

lemma split_last:
  "xs @ c # r = ys @ c # r' \<Longrightarrow> c \<notin> set r \<Longrightarrow> c \<notin> set r' \<Longrightarrow> xs = ys \<and> r = r'"
  using split_first [of "rev r" c "rev xs" "rev r'" "rev ys"]
  by (metis append_assoc append_Cons append_Nil rev.simps(2) rev_append rev_rev_ident set_rev)

text \<open>
  A number is followed by a dash unambiguously, although numbers may start with one.
\<close>

lemma fmt_d_dash_split:
  "fmt_d i @ CHR ''-'' # r = fmt_d j @ CHR ''-'' # r' \<Longrightarrow> i = j \<and> r = r'"
  by (cases "i < 0"; cases "j < 0") (auto simp: fmt_d_def dest!: split_first)

section \<open>Key encodings\<close>

text \<open>
  The contract of every key the program formats: two keys are equal only if what they
  encode is. Under it, a map indexed by encoded keys obeys the laws of a map indexed by
  the values themselves.
\<close>

locale key_encoding =
  fixes enc :: "'k \<Rightarrow> string"
  assumes enc_inj: "enc k = enc k' \<Longrightarrow> k = k'"
begin

lemma enc_eq_iff [simp]: "enc k = enc k' \<longleftrightarrow> k = k'"
  by (auto dest: enc_inj)

lemma get_set: "gm_get (gm_set (enc k) v m) (enc k') = (if k' = k then Some v else gm_get m (enc k'))"
  by (simp add: gm_simps)

lemma get_set_same: "gm_get (gm_set (enc k) v m) (enc k) = Some v"
  by (simp add: gm_simps)

lemma get_set_other: "k' \<noteq> k \<Longrightarrow> gm_get (gm_set (enc k) v m) (enc k') = gm_get m (enc k')"
  by (simp add: gm_simps)

end

end
