(* ===== verification/Route_Cache.thy ===== *)
theory Route_Cache
  imports Go_Maps
begin

text \<open>
  The data of the routing package and its route cache (\<open>internal/routing/types.go\<close>): graph
  nodes and edges, the \<open>Graph\<close> interface as the two snapshots the algorithms read, routes,
  and the cache with its time-to-live. Times are nanoseconds; each operation takes the
  reading of the clock it makes. Loops over the cache's map take their visiting order.
\<close>

section \<open>Graphs and routes\<close>

record graph_node =
  gn_ID :: i32
  gn_Address :: string
  gn_LastSeen :: int

record graph_edge =
  ge_From :: i32
  ge_To :: i32
  ge_LatencyMs :: int

text \<open>A value of the \<open>Graph\<close> interface is what its two methods return.\<close>

record graph =
  GetNodeList :: "graph_node list"
  GetEdgeList :: "graph_edge list"

record route =
  FromPeerID :: i32
  ToPeerID :: i32
  Path :: "i32 list"
  TotalLatency :: int
  Hops :: i32
  CreatedAt :: int

section \<open>The cache\<close>

record cached_route =
  cr_Route :: route
  ExpiresAt :: int

record route_cache =
  rc_routes :: "(string, cached_route) gomap"
  rc_ttl :: int

definition NewRouteCache :: "int \<Rightarrow> route_cache" where
  "NewRouteCache ttl = \<lparr>rc_routes = [], rc_ttl = ttl\<rparr>"

definition cacheKey :: "i32 \<Rightarrow> i32 \<Rightarrow> string" where
  "cacheKey from to = fmt_d (sint from) @ ''->'' @ fmt_d (sint to)"

definition cache_Set :: "int \<Rightarrow> route \<Rightarrow> route_cache \<Rightarrow> route_cache" where
  "cache_Set now r rc =
     (let key = cacheKey (FromPeerID r) (ToPeerID r)
      in rc\<lparr>rc_routes := gm_set key \<lparr>cr_Route = r, ExpiresAt = now + rc_ttl rc\<rparr> (rc_routes rc)\<rparr>)"

definition cache_Get :: "int \<Rightarrow> i32 \<Rightarrow> i32 \<Rightarrow> route_cache \<Rightarrow> route option" where
  "cache_Get now from to rc =
     (case gm_get (rc_routes rc) (cacheKey from to) of
        None \<Rightarrow> None
      | Some cached \<Rightarrow> if now > ExpiresAt cached then None else Some (cr_Route cached))"

definition cache_Invalidate :: "route_cache \<Rightarrow> route_cache \<times> nat" where
  "cache_Invalidate rc = (rc\<lparr>rc_routes := []\<rparr>, length (rc_routes rc))"

text \<open>The inner loop of \<open>InvalidatePeer\<close>: stop at the first hop that is the peer.\<close>

fun passes_through :: "i32 \<Rightarrow> i32 list \<Rightarrow> bool" where
  "passes_through peerID [] = False"
| "passes_through peerID (hop # hops) = (if hop = peerID then True else passes_through peerID hops)"

fun collect_keys :: "i32 \<Rightarrow> (string \<times> cached_route) list \<Rightarrow> string list \<Rightarrow> string list" where
  "collect_keys peerID [] keys = keys"
| "collect_keys peerID ((key, cached) # es) keys =
     collect_keys peerID es
       (if passes_through peerID (Path (cr_Route cached)) then keys @ [key] else keys)"

definition cache_InvalidatePeer :: "choices \<Rightarrow> i32 \<Rightarrow> route_cache \<Rightarrow> route_cache \<times> nat" where
  "cache_InvalidatePeer cs peerID rc =
     (let keysToDelete = collect_keys peerID (gm_range cs (rc_routes rc)) []
      in (rc\<lparr>rc_routes := fold gm_del keysToDelete (rc_routes rc)\<rparr>, length keysToDelete))"

definition cache_Size :: "route_cache \<Rightarrow> nat" where
  "cache_Size rc = length (rc_routes rc)"

fun live_routes :: "int \<Rightarrow> (string \<times> cached_route) list \<Rightarrow> route list" where
  "live_routes now [] = []"
| "live_routes now ((key, cached) # es) =
     (if now < ExpiresAt cached then cr_Route cached # live_routes now es else live_routes now es)"

definition cache_Entries :: "int \<Rightarrow> choices \<Rightarrow> route_cache \<Rightarrow> route list" where
  "cache_Entries now cs rc = live_routes now (gm_range cs (rc_routes rc))"

definition cache_TTL :: "route_cache \<Rightarrow> int" where
  "cache_TTL rc = rc_ttl rc"

section \<open>Invariant\<close>

text \<open>Every entry is filed under the key of its own route, and keys are distinct.\<close>

definition cache_wf :: "route_cache \<Rightarrow> bool" where
  "cache_wf rc \<longleftrightarrow> gm_wf (rc_routes rc) \<and>
     (\<forall>(key, cached) \<in> set (rc_routes rc).
        key = cacheKey (FromPeerID (cr_Route cached)) (ToPeerID (cr_Route cached)))"

text \<open>Different pairs of peers never share a cache key, negative identifiers included.\<close>

lemma cacheKey_inject [simp]: "cacheKey a b = cacheKey c d \<longleftrightarrow> a = c \<and> b = d"
proof
  assume "cacheKey a b = cacheKey c d"
  then have "sint a = sint c \<and> ''>'' @ fmt_d (sint b) = ''>'' @ fmt_d (sint d)"
    unfolding cacheKey_def by (intro fmt_d_dash_split) simp
  then show "a = c \<and> b = d" by (auto intro: signed_word_eqI)
qed simp

interpretation route_key: key_encoding "\<lambda>(from, to). cacheKey from to"
  by unfold_locales auto

lemma passes_through_iff [simp]: "passes_through p hops \<longleftrightarrow> p \<in> set hops"
  by (induction hops) auto

lemma collect_keys_eq:
  "collect_keys p es keys = keys @ map fst (filter (\<lambda>e. p \<in> set (Path (cr_Route (snd e)))) es)"
  by (induction p es keys rule: collect_keys.induct) auto

lemma live_routes_eq:
  "live_routes now es = map (\<lambda>e. cr_Route (snd e)) (filter (\<lambda>e. now < ExpiresAt (snd e)) es)"
  by (induction now es rule: live_routes.induct) auto

lemma fold_gm_del_get:
  "gm_get (fold gm_del ks m) k = (if k \<in> set ks then None else gm_get m k)"
  by (induction ks arbitrary: m) (auto simp: gm_simps)

lemma fold_gm_del_wf: "gm_wf m \<Longrightarrow> gm_wf (fold gm_del ks m)"
  by (induction ks arbitrary: m) auto

lemma fold_gm_del_subset: "set (fold gm_del ks m) \<subseteq> set m"
proof (induction ks arbitrary: m)
  case (Cons k ks)
  have "set (fold gm_del ks (gm_del k m)) \<subseteq> set (gm_del k m)" by (rule Cons.IH)
  then show ?case by (auto simp: set_gm_del)
qed simp

lemma cache_wf_New [simp, intro]: "cache_wf (NewRouteCache ttl)"
  by (simp add: cache_wf_def NewRouteCache_def)

lemma cache_wf_Set [simp, intro]: "cache_wf rc \<Longrightarrow> cache_wf (cache_Set now r rc)"
  by (auto simp: cache_wf_def cache_Set_def Let_def set_gm_set)

lemma cache_wf_Invalidate [simp, intro]: "cache_wf (fst (cache_Invalidate rc))"
  by (simp add: cache_wf_def cache_Invalidate_def)

lemma cache_wf_InvalidatePeer [simp, intro]:
  "cache_wf rc \<Longrightarrow> cache_wf (fst (cache_InvalidatePeer cs p rc))"
  unfolding cache_wf_def cache_InvalidatePeer_def Let_def
  using fold_gm_del_subset by (fastforce intro: fold_gm_del_wf)

section \<open>What lookups return\<close>

lemma cache_Get_Set:
  "cache_Get now' f t (cache_Set now r rc) =
     (if f = FromPeerID r \<and> t = ToPeerID r
      then (if now' > now + rc_ttl rc then None else Some r)
      else cache_Get now' f t rc)"
  by (auto simp: cache_Get_def cache_Set_def Let_def gm_simps)

lemma cache_Get_endpoints:
  "cache_wf rc \<Longrightarrow> cache_Get now f t rc = Some r \<Longrightarrow> FromPeerID r = f \<and> ToPeerID r = t"
  by (auto simp: cache_Get_def cache_wf_def split: option.splits if_splits dest!: gm_get_SomeD)

lemma cache_Get_New [simp]: "cache_Get now f t (NewRouteCache ttl) = None"
  by (simp add: cache_Get_def NewRouteCache_def gm_simps)

lemma cache_Get_Invalidate [simp]: "cache_Get now f t (fst (cache_Invalidate rc)) = None"
  by (simp add: cache_Get_def cache_Invalidate_def gm_simps)

lemma collected_keys_iff:
  assumes "gm_wf m" and "gm_get m k = Some cached"
  shows "k \<in> set (collect_keys p (gm_range cs m) []) \<longleftrightarrow> p \<in> set (Path (cr_Route cached))"
proof -
  have "(k, c) \<in> set m \<longleftrightarrow> c = cached" for c
    using assms by (auto simp: gm_get_iff [symmetric])
  then show ?thesis by (force simp: collect_keys_eq)
qed

section \<open>The contract of a memo table\<close>

text \<open>
  What the router relies on when it consults a cache: a hit after an insertion is the
  inserted entry or an older one, and a hit carries the key it was asked for.
\<close>

locale memo_table =
  fixes mget :: "int \<Rightarrow> 'k \<Rightarrow> 'c \<Rightarrow> 'r option"
    and mput :: "int \<Rightarrow> 'r \<Rightarrow> 'c \<Rightarrow> 'c"
    and key_of :: "'r \<Rightarrow> 'k"
    and minv :: "'c \<Rightarrow> bool"
  assumes put_inv: "minv c \<Longrightarrow> minv (mput now r c)"
    and get_put: "minv c \<Longrightarrow> mget now' k (mput now r c) = Some v \<Longrightarrow>
      (k = key_of r \<and> v = r) \<or> mget now' k c = Some v"
    and get_key: "minv c \<Longrightarrow> mget now k c = Some v \<Longrightarrow> key_of v = k"
begin

text \<open>If every entry satisfies a property and so does the inserted one, it stays so.\<close>

lemma put_keeps_property:
  assumes "minv c" and "\<And>now k v. mget now k c = Some v \<Longrightarrow> P k v" and "P (key_of r) r"
    and "mget now' k (mput now r c) = Some v"
  shows "P k v"
  using assms get_put [OF assms(1,4)] by blast

text \<open>Filling the table with a list of computed entries.\<close>

lemma puts_keep_property:
  assumes "minv c" and "\<And>now k v. mget now k c = Some v \<Longrightarrow> P k v"
    and "\<forall>(now, r) \<in> set ps. P (key_of r) r"
    and "mget now' k (fold (\<lambda>(now, r). mput now r) ps c) = Some v"
  shows "P k v"
  using assms
proof (induction ps arbitrary: c)
  case Nil
  then show ?case by simp
next
  case (Cons p ps)
  obtain now r where p: "p = (now, r)" by (cases p)
  have "P (key_of r) r" using Cons.prems(3) p by simp
  then have "\<And>now' k v. mget now' k (mput now r c) = Some v \<Longrightarrow> P k v"
    using Cons.prems(1,2) put_keeps_property by blast
  then show ?case
    using Cons.IH [of "mput now r c"] Cons.prems(1,3,4) p by (simp add: put_inv)
qed

end

interpretation route_memo: memo_table
  "\<lambda>now (f, t) rc. cache_Get now f t rc" cache_Set "\<lambda>r. (FromPeerID r, ToPeerID r)" cache_wf
  by unfold_locales (auto simp: cache_Get_Set dest: cache_Get_endpoints split: if_splits)

end
