(* ===== verification/Dijkstra.thy ===== *)
theory Dijkstra
  imports Route_Cache
begin

text \<open>
  The router (\<open>internal/routing/dijkstra.go\<close>): the quadratic scan with its maps of distances,
  predecessors and unvisited nodes, the walk back along the predecessors, and
  \<open>CalculateRoute\<close> with its cache. Each scan ranges over the map of unvisited nodes, so the
  definitions take the visiting order of every iteration. Walking back is a loop with no
  evident bound: it is a partial function, and that it returns is a theorem.
\<close>

section \<open>Definitions\<close>

definition inf64 :: int where
  "inf64 = max_int64"

text \<open>Reading a Go map gives the zero value of its type for a missing key.\<close>

definition gm_get0 :: "'v \<Rightarrow> ('k, 'v) gomap \<Rightarrow> 'k \<Rightarrow> 'v" where
  "gm_get0 z m k = (case gm_get m k of None \<Rightarrow> z | Some v \<Rightarrow> v)"

fun build_adjacency :: "graph_edge list \<Rightarrow> (i32, graph_edge list) gomap \<Rightarrow> (i32, graph_edge list) gomap" where
  "build_adjacency [] adj = adj"
| "build_adjacency (e # es) adj =
     build_adjacency es (gm_set (ge_From e) (gm_get0 [] adj (ge_From e) @ [e]) adj)"

record dij_state =
  distances :: "(i32, int) gomap"
  previous :: "(i32, i32) gomap"
  unvisited :: "(i32, bool) gomap"

fun init_nodes :: "graph_node list \<Rightarrow> dij_state \<Rightarrow> dij_state" where
  "init_nodes [] st = st"
| "init_nodes (n # ns) st =
     init_nodes ns
       (st\<lparr>distances := gm_set (gn_ID n) inf64 (distances st),
           previous := gm_set (gn_ID n) (-1) (previous st),
           unvisited := gm_set (gn_ID n) True (unvisited st)\<rparr>)"

text \<open>The scan for the unvisited node with the least distance.\<close>

fun scan_min :: "(i32, int) gomap \<Rightarrow> i32 list \<Rightarrow> i32 \<Rightarrow> int \<Rightarrow> i32 \<times> int" where
  "scan_min d [] currentID minDist = (currentID, minDist)"
| "scan_min d (n # ns) currentID minDist =
     (if gm_get0 0 d n < minDist then scan_min d ns n (gm_get0 0 d n)
      else scan_min d ns currentID minDist)"

text \<open>Relaxing one edge, and the loop over the edges of the settled node.\<close>

definition relax_edge :: "i32 \<Rightarrow> graph_edge \<Rightarrow> dij_state \<Rightarrow> dij_state" where
  "relax_edge currentID edge st =
     (if \<not> gm_get0 False (unvisited st) (ge_To edge) then st
      else
        let newDist = wrap64 (gm_get0 0 (distances st) currentID + ge_LatencyMs edge)
        in if newDist < gm_get0 0 (distances st) (ge_To edge)
           then st\<lparr>distances := gm_set (ge_To edge) newDist (distances st),
                   previous := gm_set (ge_To edge) currentID (previous st)\<rparr>
           else st)"

fun relax_edges :: "i32 \<Rightarrow> graph_edge list \<Rightarrow> dij_state \<Rightarrow> dij_state" where
  "relax_edges currentID [] st = st"
| "relax_edges currentID (edge # es) st = relax_edges currentID es (relax_edge currentID edge st)"

lemma scan_min_in: "fst (scan_min d ns c m) = c \<or> fst (scan_min d ns c m) \<in> set ns"
  by (induction d ns c m rule: scan_min.induct) auto

lemma unvisited_relax_edge [simp]: "unvisited (relax_edge c e st) = unvisited st"
  by (simp add: relax_edge_def Let_def)

lemma unvisited_relax [simp]: "unvisited (relax_edges c es st) = unvisited st"
  by (induction c es st rule: relax_edges.induct) auto

text \<open>The main loop; \<open>ord k\<close> is the visiting order of the \<open>k\<close>-th scan.\<close>

function dijkstra_loop ::
  "(nat \<Rightarrow> choices) \<Rightarrow> (i32, graph_edge list) gomap \<Rightarrow> i32 \<Rightarrow> nat \<Rightarrow> dij_state \<Rightarrow> dij_state" where
  "dijkstra_loop ord adj target k st =
     (if length (unvisited st) > 0 then
        let (currentID, minDist) =
              scan_min (distances st) (map fst (gm_range (ord k) (unvisited st))) (-1) inf64
        in if currentID = -1 \<or> minDist = inf64 then st
           else if currentID = target then st
           else dijkstra_loop ord adj target (Suc k)
                  (relax_edges currentID (gm_get0 [] adj currentID)
                    (st\<lparr>unvisited := gm_del currentID (unvisited st)\<rparr>))
      else st)"
  by pat_completeness auto
termination
proof (relation "measure (\<lambda>(ord, adj, target, k, st). length (unvisited st))", goal_cases)
  case (2 ord adj target k st p currentID minDist)
  then have "currentID \<in> fst ` set (unvisited st)"
    using scan_min_in [of "distances st" "map fst (gm_range (ord k) (unvisited st))" "-1" inf64]
    by (metis fst_conv list.set_map set_gm_range)
  then show ?case by (simp add: length_gm_del_less)
qed simp

declare dijkstra_loop.simps [simp del]

text \<open>Reconstruction of the path: walk backwards until the sentinel \<open>-1\<close>.\<close>

partial_function (option) walk_back :: "(i32, i32) gomap \<Rightarrow> i32 \<Rightarrow> i32 list \<Rightarrow> i32 list option" where
  "walk_back prev current path =
     (if current = -1 then Some path
      else walk_back prev (gm_get0 0 prev current) (current # path))"

declare walk_back.simps [code]

definition err_source :: "i32 \<Rightarrow> error" where
  "err_source s = ''source peer '' @ fmt_d (sint s) @ '' not found in graph''"

definition err_target :: "i32 \<Rightarrow> error" where
  "err_target t = ''target peer '' @ fmt_d (sint t) @ '' not found in graph''"

definition err_no_path :: "i32 \<Rightarrow> i32 \<Rightarrow> error" where
  "err_no_path s t = ''no path found from peer '' @ fmt_d (sint s) @ '' to peer '' @ fmt_d (sint t)"

definition dijkstra ::
  "(nat \<Rightarrow> choices) \<Rightarrow> graph \<Rightarrow> i32 \<Rightarrow> i32 \<Rightarrow> (error, i32 list \<times> int) outcome option" where
  "dijkstra ord g source target =
     (let adj = build_adjacency (GetEdgeList g) [];
          st0 = init_nodes (GetNodeList g) \<lparr>distances = [], previous = [], unvisited = []\<rparr>
      in if gm_get (distances st0) source = None then Some (Fail (err_source source))
         else if gm_get (distances st0) target = None then Some (Fail (err_target target))
         else
           let st = dijkstra_loop ord adj target 0
                      (st0\<lparr>distances := gm_set source 0 (distances st0)\<rparr>)
           in if gm_get0 0 (distances st) target = inf64
              then Some (Fail (err_no_path source target))
              else case walk_back (previous st) target [] of
                     None \<Rightarrow> None
                   | Some path \<Rightarrow> Some (Return (path, gm_get0 0 (distances st) target)))"

section \<open>The router\<close>

record dijkstra_router =
  dr_cache :: route_cache

text \<open>One hour in nanoseconds.\<close>

definition NewDijkstraRouter :: dijkstra_router where
  "NewDijkstraRouter = \<lparr>dr_cache = NewRouteCache 3600000000000\<rparr>"

definition GetCache :: "dijkstra_router \<Rightarrow> route_cache" where
  "GetCache dr = dr_cache dr"

text \<open>\<open>clk n\<close> is the \<open>n\<close>-th reading of the clock during the call.\<close>

definition CalculateRoute ::
  "(nat \<Rightarrow> int) \<Rightarrow> (nat \<Rightarrow> choices) \<Rightarrow> graph \<Rightarrow> i32 \<Rightarrow> i32 \<Rightarrow> dijkstra_router
   \<Rightarrow> (dijkstra_router \<times> (error, route) outcome) option" where
  "CalculateRoute clk ord g fromID toID dr =
     (if fromID = toID then
        Some (dr, Return \<lparr>FromPeerID = fromID, ToPeerID = toID, Path = [fromID],
                          TotalLatency = 0, Hops = 0, CreatedAt = clk 0\<rparr>)
      else case cache_Get (clk 0) fromID toID (dr_cache dr) of
        Some cached \<Rightarrow> Some (dr, Return cached)
      | None \<Rightarrow>
          (case dijkstra ord g fromID toID of
             None \<Rightarrow> None
           | Some (Fail e) \<Rightarrow> Some (dr, Fail e)
           | Some (Panic p) \<Rightarrow> Some (dr, Panic p)
           | Some (Return (path, latency)) \<Rightarrow>
               let route = \<lparr>FromPeerID = fromID, ToPeerID = toID, Path = path,
                            TotalLatency = latency, Hops = word_of_int (int (length path) - 1),
                            CreatedAt = clk 1\<rparr>
               in Some (dr\<lparr>dr_cache := cache_Set (clk 2) route (dr_cache dr)\<rparr>, Return route)))"

definition InvalidateCache :: "dijkstra_router \<Rightarrow> dijkstra_router \<times> nat" where
  "InvalidateCache dr =
     (let (rc, n) = cache_Invalidate (dr_cache dr) in (dr\<lparr>dr_cache := rc\<rparr>, n))"

definition InvalidatePeerRoutes :: "choices \<Rightarrow> i32 \<Rightarrow> dijkstra_router \<Rightarrow> dijkstra_router \<times> nat" where
  "InvalidatePeerRoutes cs peerID dr =
     (let (rc, n) = cache_InvalidatePeer cs peerID (dr_cache dr) in (dr\<lparr>dr_cache := rc\<rparr>, n))"

end
