(* ===== verification/Dijkstra_Correct.thy ===== *)
theory Dijkstra_Correct
  imports Dijkstra
begin

text \<open>
  Correctness of the shortest-path search: what a walk of the graph is, the invariant of
  the main loop (in two parts: the one that holds for every graph and makes the walk back
  terminate, and the one that needs non-negative latencies within the 64-bit range and
  makes the result optimal), and what \<open>dijkstra\<close> returns.
\<close>

section \<open>Specification\<close>

definition node_ids :: "graph \<Rightarrow> i32 set" where
  "node_ids g = gn_ID ` set (GetNodeList g)"

text \<open>A walk is a sequence of edges, each starting where the last ended, between known nodes.\<close>

fun graph_walk :: "graph \<Rightarrow> i32 \<Rightarrow> graph_edge list \<Rightarrow> i32 \<Rightarrow> bool" where
  "graph_walk g u [] v = (u = v)"
| "graph_walk g u (e # es) v =
     (e \<in> set (GetEdgeList g) \<and> ge_From e = u \<and> ge_To e \<in> node_ids g \<and> graph_walk g (ge_To e) es v)"

definition walk_latency :: "graph_edge list \<Rightarrow> int" where
  "walk_latency p = sum_list (map ge_LatencyMs p)"

definition walk_nodes :: "i32 \<Rightarrow> graph_edge list \<Rightarrow> i32 list" where
  "walk_nodes u p = u # map ge_To p"

text \<open>
  The graphs the search is meant for: no peer uses the sentinel identifier, latencies are
  between 0 and a bound, and the bound times the number of peers is below \<open>MaxInt64\<close>.
\<close>

definition graph_ok :: "int \<Rightarrow> graph \<Rightarrow> bool" where
  "graph_ok M g \<longleftrightarrow> -1 \<notin> node_ids g
     \<and> list_all (\<lambda>e. 0 \<le> ge_LatencyMs e \<and> ge_LatencyMs e \<le> M) (GetEdgeList g)
     \<and> 0 \<le> M \<and> M * int (card (node_ids g)) < inf64"

lemma graph_walk_append:
  "graph_walk g u (p @ q) v \<longleftrightarrow> (\<exists>w. graph_walk g u p w \<and> graph_walk g w q v)"
  by (induction p arbitrary: u) auto

lemma walk_latency_append [simp]: "walk_latency (p @ q) = walk_latency p + walk_latency q"
  by (simp add: walk_latency_def)

lemma walk_latency_simps [simp]:
  "walk_latency [] = 0" "walk_latency (e # p) = ge_LatencyMs e + walk_latency p"
  by (simp_all add: walk_latency_def)

lemma graph_walk_target: "graph_walk g u p v \<Longrightarrow> u \<in> node_ids g \<Longrightarrow> v \<in> node_ids g"
  by (induction p arbitrary: u) auto

section \<open>Reading the state\<close>

abbreviation dist_of :: "dij_state \<Rightarrow> i32 \<Rightarrow> int" where
  "dist_of st \<equiv> gm_get0 0 (distances st)"

abbreviation prev_of :: "dij_state \<Rightarrow> i32 \<Rightarrow> i32" where
  "prev_of st \<equiv> gm_get0 0 (previous st)"

abbreviation open_ids :: "dij_state \<Rightarrow> i32 set" where
  "open_ids st \<equiv> fst ` set (unvisited st)"

definition all_True :: "dij_state \<Rightarrow> bool" where
  "all_True st \<longleftrightarrow> (\<forall>b \<in> snd ` set (unvisited st). b)"

lemma gm_get0_set [gm_simps]: "gm_get0 z (gm_set k v m) k' = (if k' = k then v else gm_get0 z m k')"
  by (simp add: gm_get0_def gm_simps)

lemma gm_get0_empty [gm_simps]: "gm_get0 z [] k = z"
  by (simp add: gm_get0_def gm_simps)

lemma open_iff: "all_True st \<Longrightarrow> gm_get0 False (unvisited st) v \<longleftrightarrow> v \<in> open_ids st"
proof
  assume "all_True st" "gm_get0 False (unvisited st) v"
  then show "v \<in> open_ids st"
    by (auto simp: gm_get0_def split: option.splits dest!: gm_get_SomeD) force
next
  assume a: "all_True st" "v \<in> open_ids st"
  then obtain b where "gm_get (unvisited st) v = Some b"
    by (metis gm_get_None_iff not_Some_eq)
  with a(1) show "gm_get0 False (unvisited st) v"
    by (force simp: gm_get0_def all_True_def dest: gm_get_SomeD)
qed

lemma build_adjacency_get:
  "gm_get0 [] (build_adjacency es adj) u = gm_get0 [] adj u @ filter (\<lambda>e. ge_From e = u) es"
  by (induction es adj rule: build_adjacency.induct) (auto simp: gm_simps)

lemma scan_min_le:
  "scan_min d ns c m = (c', m') \<Longrightarrow> m' \<le> m \<and> (\<forall>n \<in> set ns. m' \<le> gm_get0 0 d n)"
proof (induction d ns c m rule: scan_min.induct)
  case (2 d n ns c m)
  then show ?case by (cases "gm_get0 0 d n < m") force+
qed simp

lemma scan_min_value:
  "scan_min d ns c m = (c', m') \<Longrightarrow> (c' = c \<and> m' = m) \<or> (c' \<in> set ns \<and> m' = gm_get0 0 d c' \<and> m' < m)"
  by (induction d ns c m rule: scan_min.induct) (auto split: if_splits)

text \<open>
  What relaxations do: a node keeps its entries, or it is unvisited and now has the
  settled node as predecessor and a smaller distance through one of the edges.
\<close>

definition relaxed :: "i32 \<Rightarrow> graph_edge set \<Rightarrow> dij_state \<Rightarrow> dij_state \<Rightarrow> i32 \<Rightarrow> bool" where
  "relaxed cur E st st' w \<longleftrightarrow>
     (dist_of st' w = dist_of st w \<and> prev_of st' w = prev_of st w)
     \<or> (gm_get0 False (unvisited st) w \<and> prev_of st' w = cur \<and> dist_of st' w < dist_of st w
        \<and> (\<exists>e \<in> E. ge_To e = w \<and> dist_of st' w = wrap64 (dist_of st cur + ge_LatencyMs e)))"

lemma relax_edge_cur:
  "\<not> gm_get0 False (unvisited st) cur \<Longrightarrow> dist_of (relax_edge cur e st) cur = dist_of st cur"
  by (auto simp: relax_edge_def Let_def gm_simps)

lemma relax_edge_relaxed: "relaxed cur {e} st (relax_edge cur e st) w"
  by (auto simp: relaxed_def relax_edge_def Let_def gm_simps)

lemma relax_effect:
  "\<not> gm_get0 False (unvisited st) cur \<Longrightarrow> relaxed cur (set es) st (relax_edges cur es st) w"
proof (induction es arbitrary: st)
  case Nil
  then show ?case by (simp add: relaxed_def)
next
  case (Cons e es)
  let ?st1 = "relax_edge cur e st"
  have "relaxed cur (set es) ?st1 (relax_edges cur es ?st1) w"
    using Cons by simp
  moreover have "relaxed cur {e} st ?st1 w" by (rule relax_edge_relaxed)
  ultimately show ?case
    using relax_edge_cur [OF Cons.prems, of e] by (auto simp: relaxed_def)
qed

lemma relax_bound:
  "\<not> gm_get0 False (unvisited st) cur \<Longrightarrow> e \<in> set es \<Longrightarrow> gm_get0 False (unvisited st) (ge_To e)
   \<Longrightarrow> dist_of (relax_edges cur es st) (ge_To e) \<le> wrap64 (dist_of st cur + ge_LatencyMs e)"
proof (induction es arbitrary: st)
  case (Cons f es)
  let ?st1 = "relax_edge cur f st"
  have nv: "\<not> gm_get0 False (unvisited ?st1) cur" using Cons.prems by simp
  have cur: "dist_of ?st1 cur = dist_of st cur" using Cons.prems by (simp add: relax_edge_cur)
  show ?case
  proof (cases "e = f")
    case True
    have "dist_of ?st1 (ge_To e) \<le> wrap64 (dist_of st cur + ge_LatencyMs e)"
      using True Cons.prems(3) by (auto simp: relax_edge_def Let_def gm_simps)
    moreover have "dist_of (relax_edges cur es ?st1) (ge_To e) \<le> dist_of ?st1 (ge_To e)"
      using relax_effect [OF nv, of es "ge_To e"] by (auto simp: relaxed_def)
    ultimately show ?thesis by simp
  next
    case False
    then show ?thesis using Cons.IH [OF nv] Cons.prems cur by simp
  qed
qed simp

section \<open>Walking back\<close>

fun back_chain :: "(i32 \<Rightarrow> i32) \<Rightarrow> i32 \<Rightarrow> i32 list \<Rightarrow> bool" where
  "back_chain P s [] = False"
| "back_chain P s [v] = (v = s \<and> P s = -1)"
| "back_chain P s (v # u # r) = (P v = u \<and> back_chain P s (u # r))"

lemma walk_back_chain:
  "back_chain (gm_get0 0 prev) s r \<Longrightarrow> -1 \<notin> set r \<Longrightarrow>
   walk_back prev (hd r) acc = Some (rev r @ acc)"
proof (induction r arbitrary: acc rule: induct_list012)
  case (2 v)
  then show ?case
    by (simp add: walk_back.simps [of prev s] walk_back.simps [of prev "-1"] eq_commute [of "-1"])
next
  case (3 v u r)
  then show ?case by (auto simp: walk_back.simps [of prev v])
qed simp

lemma back_chain_cong:
  "back_chain P s r \<Longrightarrow> (\<And>v. v \<in> set r \<Longrightarrow> P' v = P v) \<Longrightarrow> back_chain P' s r"
  by (induction P s r rule: back_chain.induct) auto

text \<open>
  \<open>settled_chain ids st s v r\<close>: following the predecessors from \<open>v\<close> gives \<open>v # r\<close>, which
  ends in the source, visits no node twice and, after \<open>v\<close>, only settled nodes.
\<close>

definition settled_chain :: "i32 set \<Rightarrow> dij_state \<Rightarrow> i32 \<Rightarrow> i32 \<Rightarrow> i32 list \<Rightarrow> bool" where
  "settled_chain ids st s v r \<longleftrightarrow>
     back_chain (prev_of st) s (v # r) \<and> set r \<subseteq> ids - open_ids st \<and> -1 \<notin> set r \<and> distinct (v # r)"

text \<open>The invariant of the main loop that holds for every graph.\<close>

definition loop_inv :: "i32 set \<Rightarrow> i32 \<Rightarrow> dij_state \<Rightarrow> bool" where
  "loop_inv ids s st \<longleftrightarrow>
     all_True st \<and> open_ids st \<subseteq> ids \<and> s \<in> ids
     \<and> dist_of st s = 0
     \<and> (\<forall>v \<in> ids. dist_of st v \<le> inf64)
     \<and> (s \<in> open_ids st \<longrightarrow> open_ids st = ids \<and> (\<forall>v \<in> ids. v \<noteq> s \<longrightarrow> dist_of st v = inf64))
     \<and> (\<forall>v \<in> ids. dist_of st v < inf64 \<longrightarrow> (\<exists>r. settled_chain ids st s v r))"

lemma back_chain_last: "back_chain P s r \<Longrightarrow> r \<noteq> [] \<and> last r = s"
  by (induction P s r rule: back_chain.induct) auto

section \<open>One iteration\<close>

text \<open>The body of the main loop once a node has been selected.\<close>

definition settle :: "(i32, graph_edge list) gomap \<Rightarrow> i32 \<Rightarrow> dij_state \<Rightarrow> dij_state" where
  "settle adj cur st =
     relax_edges cur (gm_get0 [] adj cur) (st\<lparr>unvisited := gm_del cur (unvisited st)\<rparr>)"

lemma open_settle [simp]: "open_ids (settle adj cur st) = open_ids st - {cur}"
  by (simp add: settle_def)

lemma all_True_settle: "all_True st \<Longrightarrow> all_True (settle adj cur st)"
  by (auto simp: settle_def all_True_def set_gm_del)

text \<open>The effect of \<open>settle\<close>, read off \<open>relax_effect\<close> and \<open>relax_bound\<close>.\<close>

lemma settle_cases:
  assumes "all_True st"
  obtains (same) "dist_of (settle adj cur st) w = dist_of st w" "prev_of (settle adj cur st) w = prev_of st w"
  | (less) e where "w \<in> open_ids st" "w \<noteq> cur" "prev_of (settle adj cur st) w = cur"
      "dist_of (settle adj cur st) w < dist_of st w" "e \<in> set (gm_get0 [] adj cur)" "ge_To e = w"
      "dist_of (settle adj cur st) w = wrap64 (dist_of st cur + ge_LatencyMs e)"
proof -
  let ?st0 = "st\<lparr>unvisited := gm_del cur (unvisited st)\<rparr>"
  have t0: "all_True ?st0" using assms by (auto simp: all_True_def set_gm_del)
  have "\<not> gm_get0 False (unvisited ?st0) cur"
    using open_iff [OF t0, of cur] by simp
  from relax_effect [OF this, of "gm_get0 [] adj cur" w] show thesis
    using that open_iff [OF t0, of w] unfolding relaxed_def settle_def [symmetric] by force
qed

lemma settle_le: "all_True st \<Longrightarrow> dist_of (settle adj cur st) w \<le> dist_of st w"
  by (rule settle_cases [of st adj cur w]) auto

lemma settle_closed:
  assumes "all_True st" and "w \<notin> open_ids st \<or> w = cur"
  shows "dist_of (settle adj cur st) w = dist_of st w" "prev_of (settle adj cur st) w = prev_of st w"
  using settle_cases [OF assms(1), of adj cur w] assms(2) by (metis)+

lemma settle_bound:
  assumes "all_True st" and "e \<in> set (gm_get0 [] adj cur)" and "ge_To e \<in> open_ids st" "ge_To e \<noteq> cur"
  shows "dist_of (settle adj cur st) (ge_To e) \<le> wrap64 (dist_of st cur + ge_LatencyMs e)"
proof -
  let ?st0 = "st\<lparr>unvisited := gm_del cur (unvisited st)\<rparr>"
  have t0: "all_True ?st0" using assms(1) by (auto simp: all_True_def set_gm_del)
  have "\<not> gm_get0 False (unvisited ?st0) cur" "gm_get0 False (unvisited ?st0) (ge_To e)"
    using open_iff [OF t0] assms(3,4) by simp_all
  from relax_bound [OF this(1) assms(2) this(2)] show ?thesis by (simp add: settle_def)
qed

lemma settled_chain_settle:
  assumes "loop_inv ids s st" and "cur \<in> open_ids st" and "settled_chain ids st s v r"
    and "prev_of (settle adj cur st) v = prev_of st v"
  shows "settled_chain ids (settle adj cur st) s v r"
proof -
  have "prev_of (settle adj cur st) u = prev_of st u" if "u \<in> set (v # r)" for u
    using that assms settle_closed(2) [of st u cur adj]
    by (auto simp: settled_chain_def loop_inv_def)
  then show ?thesis
    using assms(3) back_chain_cong [of "prev_of st" s "v # r"]
    by (auto simp: settled_chain_def)
qed

lemma loop_inv_settle:
  assumes inv: "loop_inv ids s st" and cur: "cur \<in> open_ids st" "cur \<noteq> -1" "dist_of st cur < inf64"
  shows "loop_inv ids s (settle adj cur st)"
proof -
  have t: "all_True st" and sub: "open_ids st \<subseteq> ids" and s: "s \<in> ids" "dist_of st s = 0"
    using inv by (simp_all add: loop_inv_def)
  have s_open: "s \<in> open_ids st \<longrightarrow> cur = s"
    using inv cur by (auto simp: loop_inv_def)
  have s_same: "dist_of (settle adj cur st) s = dist_of st s"
    using s_open settle_closed(1) [OF t, of s cur adj] by blast
  have chain: "\<exists>r. settled_chain ids (settle adj cur st) s v r"
    if v: "v \<in> ids" "dist_of (settle adj cur st) v < inf64" for v
    using t
  proof (cases rule: settle_cases [of st adj cur v])
    case same
    with inv v obtain r where "settled_chain ids st s v r" by (auto simp: loop_inv_def)
    with same show ?thesis using settled_chain_settle [OF inv cur(1)] by blast
  next
    case (less e)
    have "cur \<in> ids" using cur(1) sub by blast
    then obtain r where r: "settled_chain ids st s cur r"
      using inv cur(3) unfolding loop_inv_def by blast
    have "settled_chain ids (settle adj cur st) s cur r"
      using settled_chain_settle [OF inv cur(1) r] settle_closed(2) [OF t, of cur cur adj] by simp
    then have "settled_chain ids (settle adj cur st) s v (cur # r)"
      using less cur sub r by (auto simp: settled_chain_def)
    then show ?thesis ..
  qed
  have "dist_of (settle adj cur st) v \<le> inf64" if "v \<in> ids" for v
    using inv that settle_le [OF t, of adj cur v] by (force simp: loop_inv_def)
  then show ?thesis
    using chain sub s s_same s_open all_True_settle [OF t] by (auto simp: loop_inv_def)
qed

section \<open>Optimality\<close>

text \<open>
  For graphs that are \<open>graph_ok\<close>: distances are realised by the predecessor edges, settled
  nodes are closest, their edges are relaxed, and finite distances stay below the bound.
\<close>

definition opt_inv :: "int \<Rightarrow> graph \<Rightarrow> i32 \<Rightarrow> dij_state \<Rightarrow> bool" where
  "opt_inv M g s st \<longleftrightarrow>
     (\<forall>v \<in> node_ids g. v \<noteq> s \<longrightarrow> dist_of st v < inf64 \<longrightarrow>
        prev_of st v \<in> node_ids g - open_ids st
        \<and> (\<exists>e \<in> set (GetEdgeList g). ge_From e = prev_of st v \<and> ge_To e = v
             \<and> dist_of st v = dist_of st (prev_of st v) + ge_LatencyMs e))
     \<and> (\<forall>u \<in> node_ids g - open_ids st. dist_of st u < inf64 \<and> (\<forall>w \<in> open_ids st. dist_of st u \<le> dist_of st w))
     \<and> (\<forall>e \<in> set (GetEdgeList g). ge_From e \<in> node_ids g - open_ids st \<longrightarrow> ge_To e \<in> node_ids g \<longrightarrow>
          dist_of st (ge_To e) \<le> dist_of st (ge_From e) + ge_LatencyMs e)
     \<and> (\<forall>v \<in> node_ids g. dist_of st v < inf64 \<longrightarrow>
          0 \<le> dist_of st v \<and> dist_of st v \<le> M * int (card (node_ids g - open_ids st)))"

lemma finite_node_ids [simp, intro]: "finite (node_ids g)"
  by (simp add: node_ids_def)

lemma settled_card_less:
  assumes "cur \<in> open_ids st" and "open_ids st \<subseteq> node_ids g"
  shows "card (node_ids g - open_ids st) < card (node_ids g)"
    and "card (node_ids g - (open_ids st - {cur})) = Suc (card (node_ids g - open_ids st))"
proof -
  show "card (node_ids g - open_ids st) < card (node_ids g)"
    using assms by (intro psubset_card_mono) auto
  have "node_ids g - (open_ids st - {cur}) = insert cur (node_ids g - open_ids st)"
    using assms by blast
  then show "card (node_ids g - (open_ids st - {cur})) = Suc (card (node_ids g - open_ids st))"
    using assms(1) by simp
qed

lemma no_overflow:
  assumes ok: "graph_ok M g" and inv: "open_ids st \<subseteq> node_ids g" "opt_inv M g s st"
    and cur: "cur \<in> open_ids st" "dist_of st cur < inf64" and e: "e \<in> set (GetEdgeList g)"
  shows "wrap64 (dist_of st cur + ge_LatencyMs e) = dist_of st cur + ge_LatencyMs e"
    and "0 \<le> dist_of st cur" and "0 \<le> ge_LatencyMs e"
    and "dist_of st cur + ge_LatencyMs e \<le> M * (1 + int (card (node_ids g - open_ids st)))"
proof -
  let ?k = "card (node_ids g - open_ids st)"
  have d: "0 \<le> dist_of st cur" "dist_of st cur \<le> M * int ?k"
    using inv cur by (auto simp: opt_inv_def)
  have l: "0 \<le> ge_LatencyMs e" "ge_LatencyMs e \<le> M"
    using ok e by (auto simp: graph_ok_def list_all_iff)
  show sum: "dist_of st cur + ge_LatencyMs e \<le> M * (1 + int ?k)"
    using d l by (simp add: algebra_simps)
  have "1 + int ?k \<le> int (card (node_ids g))"
    using settled_card_less(1) [OF cur(1) inv(1)] by simp
  then have "M * (1 + int ?k) \<le> M * int (card (node_ids g))"
    using ok by (intro mult_left_mono) (auto simp: graph_ok_def)
  then have "dist_of st cur + ge_LatencyMs e \<le> max_int64"
    using sum ok by (simp add: graph_ok_def inf64_def)
  then show "wrap64 (dist_of st cur + ge_LatencyMs e) = dist_of st cur + ge_LatencyMs e"
    using d l by (intro wrap64_id) simp_all
  show "0 \<le> dist_of st cur" "0 \<le> ge_LatencyMs e" by (rule d l)+
qed

text \<open>The effect of settling a node, without overflow and in terms of the graph's edges.\<close>

lemma settle_opt_cases:
  assumes ok: "graph_ok M g" and inv: "all_True st" "open_ids st \<subseteq> node_ids g" "opt_inv M g s st"
    and cur: "cur \<in> open_ids st" "dist_of st cur < inf64"
    and adj: "gm_get0 [] adj cur = filter (\<lambda>e. ge_From e = cur) (GetEdgeList g)"
  obtains (same) "dist_of (settle adj cur st) w = dist_of st w" "prev_of (settle adj cur st) w = prev_of st w"
  | (less) e where "w \<in> open_ids st" "w \<noteq> cur" "prev_of (settle adj cur st) w = cur"
      "e \<in> set (GetEdgeList g)" "ge_From e = cur" "ge_To e = w"
      "dist_of (settle adj cur st) w = dist_of st cur + ge_LatencyMs e"
      "dist_of (settle adj cur st) w < dist_of st w"
  using inv(1)
proof (cases rule: settle_cases [of st adj cur w])
  case (less e)
  then have "e \<in> set (GetEdgeList g)" "ge_From e = cur" by (simp_all add: adj)
  with less show thesis
    using that(2) no_overflow(1) [OF ok inv(2,3) cur] by metis
qed (use that(1) in blast)

lemma opt_inv_settle:
  assumes ok: "graph_ok M g" and li: "loop_inv (node_ids g) s st" and oi: "opt_inv M g s st"
    and cur: "cur \<in> open_ids st" "dist_of st cur < inf64" "\<forall>w \<in> open_ids st. dist_of st cur \<le> dist_of st w"
    and adj: "gm_get0 [] adj cur = filter (\<lambda>e. ge_From e = cur) (GetEdgeList g)"
  shows "opt_inv M g s (settle adj cur st)"
proof -
  let ?st = "settle adj cur st" and ?I = "node_ids g" and ?O = "open_ids st"
  have t: "all_True st" and sub: "?O \<subseteq> ?I" using li by (simp_all add: loop_inv_def)
  have curI: "cur \<in> ?I" using cur(1) sub by blast
  have settled_same: "dist_of ?st u = dist_of st u" if "u \<in> ?I - (?O - {cur})" for u
    using that settle_closed(1) [OF t, of u cur adj] by blast
  have closest: "dist_of st u \<le> dist_of st cur" if "u \<in> ?I - (?O - {cur})" for u
    using that oi cur(1) unfolding opt_inv_def by (cases "u = cur") auto
  note overflow = no_overflow [OF ok sub oi cur(1,2)]
  have c1: "prev_of ?st v \<in> ?I - (?O - {cur})
      \<and> (\<exists>e \<in> set (GetEdgeList g). ge_From e = prev_of ?st v \<and> ge_To e = v
           \<and> dist_of ?st v = dist_of ?st (prev_of ?st v) + ge_LatencyMs e)"
    if v: "v \<in> ?I" "v \<noteq> s" "dist_of ?st v < inf64" for v
    using ok t sub oi cur(1,2) adj
  proof (cases rule: settle_opt_cases [where w = v])
    case same
    then have p: "prev_of st v \<in> ?I - ?O" and
      "\<exists>e \<in> set (GetEdgeList g). ge_From e = prev_of st v \<and> ge_To e = v
           \<and> dist_of st v = dist_of st (prev_of st v) + ge_LatencyMs e"
      using oi v unfolding opt_inv_def by auto
    moreover have "dist_of ?st (prev_of st v) = dist_of st (prev_of st v)"
      using settled_same p by blast
    ultimately show ?thesis using same by auto
  next
    case (less e)
    then show ?thesis using curI settled_same [of cur] by auto
  qed
  have c2: "dist_of ?st u < inf64 \<and> (\<forall>w \<in> ?O - {cur}. dist_of ?st u \<le> dist_of ?st w)"
    if u: "u \<in> ?I - (?O - {cur})" for u
  proof (intro conjI ballI)
    show "dist_of ?st u < inf64" using settled_same [OF u] closest [OF u] cur(2) by simp
    fix w assume w: "w \<in> ?O - {cur}"
    have "dist_of st cur \<le> dist_of ?st w"
      using ok t sub oi cur(1,2) adj
      by (cases rule: settle_opt_cases [where w = w]) (use w cur(3) overflow(3) in auto)
    then show "dist_of ?st u \<le> dist_of ?st w" using settled_same [OF u] closest [OF u] by simp
  qed
  have c3: "dist_of ?st (ge_To e) \<le> dist_of ?st (ge_From e) + ge_LatencyMs e"
    if e: "e \<in> set (GetEdgeList g)" "ge_From e \<in> ?I - (?O - {cur})" "ge_To e \<in> ?I" for e
  proof (cases "ge_From e = cur")
    case True
    show ?thesis
    proof (cases "ge_To e \<in> ?O - {cur}")
      case True
      then show ?thesis
        using settle_bound [OF t, of e adj cur] adj e \<open>ge_From e = cur\<close> overflow(1) settled_same [of cur] curI
        by auto
    next
      case False
      then show ?thesis
        using settled_same closest e \<open>ge_From e = cur\<close> overflow(3) by (smt (verit) DiffI)
    qed
  next
    case False
    then have "dist_of st (ge_To e) \<le> dist_of st (ge_From e) + ge_LatencyMs e"
      using oi e unfolding opt_inv_def by blast
    then show ?thesis
      using settle_le [OF t, of adj cur "ge_To e"] settled_same [OF e(2)] by simp
  qed
  have c4: "0 \<le> dist_of ?st v \<and> dist_of ?st v \<le> M * int (card (?I - (?O - {cur})))"
    if v: "v \<in> ?I" "dist_of ?st v < inf64" for v
    using ok t sub oi cur(1,2) adj
  proof (cases rule: settle_opt_cases [where w = v])
    case same
    then have "0 \<le> dist_of st v" "dist_of st v \<le> M * int (card (?I - ?O))"
      using oi v unfolding opt_inv_def by auto
    moreover have "M * int (card (?I - ?O)) \<le> M * int (card (?I - (?O - {cur})))"
      using ok settled_card_less(2) [OF cur(1) sub] by (intro mult_left_mono) (auto simp: graph_ok_def)
    ultimately show ?thesis using same by linarith
  next
    case (less e)
    then show ?thesis
      using overflow(2-4) [of e] settled_card_less(2) [OF cur(1) sub] by simp
  qed
  show ?thesis
    unfolding opt_inv_def open_settle using c1 c2 c3 c4 by blast
qed

section \<open>The main loop\<close>

lemma scan_open:
  assumes "scan_min (distances st) (map fst (gm_range cs (unvisited st))) (-1) inf64 = (c, m)"
  shows "\<forall>w \<in> open_ids st. m \<le> dist_of st w"
    and "\<not> (c = -1 \<or> m = inf64) \<Longrightarrow> c \<in> open_ids st \<and> dist_of st c = m \<and> m < inf64"
    and "c = -1 \<Longrightarrow> -1 \<notin> open_ids st \<Longrightarrow> m = inf64"
  using scan_min_le [OF assms] scan_min_value [OF assms] by auto

lemma dijkstra_loop_unfold:
  assumes "scan_min (distances st) (map fst (gm_range (ord k) (unvisited st))) (-1) inf64 = (c, m)"
  shows "dijkstra_loop ord adj t k st =
    (if unvisited st = [] \<or> c = -1 \<or> m = inf64 \<or> c = t then st
     else dijkstra_loop ord adj t (Suc k) (settle adj c st))"
  using assms by (subst dijkstra_loop.simps) (simp add: settle_def)

text \<open>
  Induction along the loop: a property that settling keeps holds of the result; the result
  is a state where the scan found the target or nothing.
\<close>

lemma dijkstra_loop_induct:
  assumes "I st" and "t \<in> open_ids st"
    and step: "\<And>st c. I st \<Longrightarrow> c \<in> open_ids st \<Longrightarrow> c \<noteq> -1 \<Longrightarrow> c \<noteq> t \<Longrightarrow> dist_of st c < inf64 \<Longrightarrow>
      \<forall>w \<in> open_ids st. dist_of st c \<le> dist_of st w \<Longrightarrow> I (settle adj c st)"
  shows "I (dijkstra_loop ord adj t k st) \<and> t \<in> open_ids (dijkstra_loop ord adj t k st)
    \<and> (-1 \<in> open_ids (dijkstra_loop ord adj t k st)
       \<or> (\<forall>w \<in> open_ids (dijkstra_loop ord adj t k st). inf64 \<le> dist_of (dijkstra_loop ord adj t k st) w)
       \<or> (\<forall>w \<in> open_ids (dijkstra_loop ord adj t k st).
            dist_of (dijkstra_loop ord adj t k st) t \<le> dist_of (dijkstra_loop ord adj t k st) w))"
  using assms(1,2)
proof (induction n \<equiv> "length (unvisited st)" arbitrary: st k rule: less_induct)
  case less
  obtain c m where scan: "scan_min (distances st) (map fst (gm_range (ord k) (unvisited st))) (-1) inf64 = (c, m)"
    by (metis surj_pair)
  note found = scan_open [OF scan]
  show ?case
  proof (cases "c = -1 \<or> m = inf64 \<or> c = t")
    case True
    then have "dijkstra_loop ord adj t k st = st"
      by (simp add: dijkstra_loop_unfold [where ord = ord and k = k and st = st, OF scan])
    then show ?thesis using True found less.prems by auto
  next
    case False
    have ne: "unvisited st \<noteq> []" using less.prems(2) by auto
    have c: "c \<in> open_ids st" "dist_of st c = m" "m < inf64" using False found(2) by auto
    have eq: "dijkstra_loop ord adj t k st = dijkstra_loop ord adj t (Suc k) (settle adj c st)"
      using False ne by (simp add: dijkstra_loop_unfold [where ord = ord and k = k and st = st, OF scan])
    have "length (unvisited (settle adj c st)) < length (unvisited st)"
      using c(1) by (simp add: settle_def length_gm_del_less)
    moreover have "I (settle adj c st)"
      using step [OF less.prems(1) c(1)] False c found(1) by simp
    moreover have "t \<in> open_ids (settle adj c st)"
      using False less.prems(2) by (auto simp: open_settle)
    ultimately show ?thesis unfolding eq by (rule less.hyps [rule_format])
  qed
qed

section \<open>The start of the search\<close>

lemma init_nodes_keys:
  "fst ` set (distances (init_nodes ns st)) = fst ` set (distances st) \<union> gn_ID ` set ns"
  "fst ` set (unvisited (init_nodes ns st)) = fst ` set (unvisited st) \<union> gn_ID ` set ns"
  by (induction ns st rule: init_nodes.induct) auto

lemma init_nodes_values:
  "v \<in> gn_ID ` set ns \<or> (dist_of st v = inf64 \<and> prev_of st v = -1) \<Longrightarrow>
   dist_of (init_nodes ns st) v = inf64 \<and> prev_of (init_nodes ns st) v = -1"
  by (induction ns st rule: init_nodes.induct) (auto simp: gm_simps)

lemma init_nodes_all_True: "all_True st \<Longrightarrow> all_True (init_nodes ns st)"
proof (induction ns st rule: init_nodes.induct)
  case (2 n ns st)
  then show ?case using set_gm_set_subset [of "gn_ID n" True "unvisited st"]
    by (fastforce simp: all_True_def)
qed simp

definition start_state :: "graph \<Rightarrow> i32 \<Rightarrow> dij_state" where
  "start_state g source =
     (let st0 = init_nodes (GetNodeList g) \<lparr>distances = [], previous = [], unvisited = []\<rparr>
      in st0\<lparr>distances := gm_set source 0 (distances st0)\<rparr>)"

lemma start_loop_inv:
  assumes "s \<in> node_ids g"
  shows "loop_inv (node_ids g) s (start_state g s)"
    and "open_ids (start_state g s) = node_ids g"
    and "\<forall>v \<in> node_ids g. dist_of (start_state g s) v = (if v = s then 0 else inf64)"
proof -
  let ?e = "\<lparr>distances = [], previous = [], unvisited = []\<rparr> :: dij_state"
  show opn: "open_ids (start_state g s) = node_ids g"
    by (simp add: start_state_def Let_def init_nodes_keys node_ids_def)
  have val: "dist_of (start_state g s) v = (if v = s then 0 else inf64) \<and> prev_of (start_state g s) v = -1"
    if "v \<in> node_ids g" for v
    using init_nodes_values [of v "GetNodeList g" ?e] that
    by (auto simp: start_state_def Let_def gm_simps node_ids_def)
  then show "\<forall>v \<in> node_ids g. dist_of (start_state g s) v = (if v = s then 0 else inf64)" by blast
  have "all_True (start_state g s)"
    using init_nodes_all_True [of ?e "GetNodeList g"]
    by (simp add: start_state_def Let_def all_True_def)
  moreover have "settled_chain (node_ids g) (start_state g s) s s []"
    using val assms by (simp add: settled_chain_def)
  ultimately show "loop_inv (node_ids g) s (start_state g s)"
    using val assms opn by (auto simp: loop_inv_def inf64_def max_int64_def split: if_splits)
qed

lemma start_opt_inv:
  assumes "s \<in> node_ids g" shows "opt_inv M g s (start_state g s)"
  using start_loop_inv(2,3) [OF assms] by (auto simp: opt_inv_def)

text \<open>\<open>dijkstra\<close> in terms of its parts.\<close>

definition final_state :: "(nat \<Rightarrow> choices) \<Rightarrow> graph \<Rightarrow> i32 \<Rightarrow> i32 \<Rightarrow> dij_state" where
  "final_state ord g s t = dijkstra_loop ord (build_adjacency (GetEdgeList g) []) t 0 (start_state g s)"

lemma dijkstra_unfold:
  "dijkstra ord g s t =
     (if s \<notin> node_ids g then Some (Fail (err_source s))
      else if t \<notin> node_ids g then Some (Fail (err_target t))
      else if dist_of (final_state ord g s t) t = inf64 then Some (Fail (err_no_path s t))
      else map_option (\<lambda>path. Return (path, dist_of (final_state ord g s t) t))
             (walk_back (previous (final_state ord g s t)) t []))"
proof -
  have "gm_get (distances (init_nodes (GetNodeList g) \<lparr>distances = [], previous = [], unvisited = []\<rparr>)) v = None
      \<longleftrightarrow> v \<notin> node_ids g" for v
    by (simp add: gm_get_None_iff init_nodes_keys node_ids_def)
  then show ?thesis
    by (simp add: dijkstra_def Let_def final_state_def start_state_def split: option.split)
qed

lemma adjacency_edges:
  "gm_get0 [] (build_adjacency (GetEdgeList g) []) u = filter (\<lambda>e. ge_From e = u) (GetEdgeList g)"
  by (simp add: build_adjacency_get gm_simps)

lemma final_loop_inv:
  assumes "s \<in> node_ids g" and "t \<in> node_ids g"
  shows "loop_inv (node_ids g) s (final_state ord g s t)"
proof -
  have "t \<in> open_ids (start_state g s)" using start_loop_inv(2) [OF assms(1)] assms(2) by simp
  from dijkstra_loop_induct [where I = "loop_inv (node_ids g) s", OF start_loop_inv(1) [OF assms(1)] this]
  show ?thesis unfolding final_state_def using loop_inv_settle by blast
qed

lemma final_opt_inv:
  assumes "s \<in> node_ids g" and "t \<in> node_ids g" and ok: "graph_ok M g"
  shows "opt_inv M g s (final_state ord g s t)"
    and "t \<in> open_ids (final_state ord g s t)"
    and "(\<forall>w \<in> open_ids (final_state ord g s t). inf64 \<le> dist_of (final_state ord g s t) w)
       \<or> (\<forall>w \<in> open_ids (final_state ord g s t).
            dist_of (final_state ord g s t) t \<le> dist_of (final_state ord g s t) w)"
proof -
  let ?I = "\<lambda>st. loop_inv (node_ids g) s st \<and> opt_inv M g s st"
  have "?I (start_state g s)" "t \<in> open_ids (start_state g s)"
    using start_loop_inv [OF assms(1)] start_opt_inv [OF assms(1)] assms(2) by auto
  note r = dijkstra_loop_induct [where I = ?I, OF this, of "build_adjacency (GetEdgeList g) []" ord 0,
      folded final_state_def]
  have "?I (settle (build_adjacency (GetEdgeList g) []) c st)"
    if "?I st" "c \<in> open_ids st" "c \<noteq> -1" "dist_of st c < inf64" "\<forall>w \<in> open_ids st. dist_of st c \<le> dist_of st w"
    for st c
    using that loop_inv_settle opt_inv_settle [OF ok _ _ _ _ _ adjacency_edges] by blast
  note r = r [OF this]
  then show "opt_inv M g s (final_state ord g s t)" "t \<in> open_ids (final_state ord g s t)"
    by blast+
  have "-1 \<notin> open_ids (final_state ord g s t)"
    using final_loop_inv [OF assms(1,2), of ord] ok unfolding loop_inv_def graph_ok_def by blast
  then show "(\<forall>w \<in> open_ids (final_state ord g s t). inf64 \<le> dist_of (final_state ord g s t) w)
       \<or> (\<forall>w \<in> open_ids (final_state ord g s t).
            dist_of (final_state ord g s t) t \<le> dist_of (final_state ord g s t) w)"
    using r by blast
qed

section \<open>What the final state says about walks\<close>

text \<open>The chain of predecessors is a walk of the graph whose latency is the distance.\<close>

lemma chain_is_walk:
  assumes "loop_inv (node_ids g) s st" and "opt_inv M g s st"
    and "settled_chain (node_ids g) st s v r" and "v \<in> node_ids g" and "dist_of st v < inf64"
  shows "\<exists>p. graph_walk g s p v \<and> walk_nodes s p = rev (v # r) \<and> walk_latency p = dist_of st v"
  using assms(3-5)
proof (induction r arbitrary: v)
  case Nil
  then have "v = s" by (simp add: settled_chain_def)
  then have "graph_walk g s [] v \<and> walk_nodes s [] = rev [v] \<and> walk_latency [] = dist_of st v"
    using assms(1) by (simp add: walk_nodes_def loop_inv_def)
  then show ?case by blast
next
  case (Cons u r)
  have chain: "prev_of st v = u" "settled_chain (node_ids g) st s u r"
    using Cons.prems(1) by (auto simp: settled_chain_def)
  have u: "u \<in> node_ids g - open_ids st" using Cons.prems(1) by (auto simp: settled_chain_def)
  have "s \<in> set (u # r)"
    using chain(2) back_chain_last [of "prev_of st" s "u # r"]
    by (metis last_in_set settled_chain_def)
  then have "v \<noteq> s" using Cons.prems(1) by (auto simp: settled_chain_def)
  then obtain e where e: "e \<in> set (GetEdgeList g)" "ge_From e = u" "ge_To e = v"
      "dist_of st v = dist_of st u + ge_LatencyMs e"
    using assms(2) Cons.prems(2,3) chain(1) unfolding opt_inv_def by blast
  have "dist_of st u < inf64" using assms(2) u by (simp add: opt_inv_def)
  then obtain p where p: "graph_walk g s p u" "walk_nodes s p = rev (u # r)" "walk_latency p = dist_of st u"
    using Cons.IH chain(2) u by blast
  have "graph_walk g s (p @ [e]) v \<and> walk_nodes s (p @ [e]) = rev (v # u # r)
      \<and> walk_latency (p @ [e]) = dist_of st v"
    using p e Cons.prems(2) by (auto simp: graph_walk_append walk_nodes_def)
  then show ?case by blast
qed

text \<open>No walk is shorter than the distance of its end, unless it leaves the settled nodes.\<close>

lemma walk_dominated:
  assumes "loop_inv (node_ids g) s st" and "opt_inv M g s st" and ok: "graph_ok M g"
    and "graph_walk g s q v"
  shows "dist_of st v \<le> walk_latency q \<or> (\<exists>w \<in> open_ids st. dist_of st w \<le> walk_latency q)"
  using assms(4)
proof (induction q arbitrary: v rule: rev_induct)
  case Nil
  then show ?case using assms(1) by (auto simp: loop_inv_def)
next
  case (snoc e q)
  then have q: "graph_walk g s q (ge_From e)" and e: "e \<in> set (GetEdgeList g)" "ge_To e = v" "v \<in> node_ids g"
    by (auto simp: graph_walk_append)
  have "0 \<le> ge_LatencyMs e" using ok e(1) by (auto simp: graph_ok_def list_all_iff)
  moreover have "ge_From e \<in> node_ids g"
    using graph_walk_target [OF q] assms(1) by (simp add: loop_inv_def)
  then have "ge_From e \<notin> open_ids st \<Longrightarrow> dist_of st v \<le> dist_of st (ge_From e) + ge_LatencyMs e"
    using assms(2) e by (auto simp: opt_inv_def)
  ultimately show ?case using snoc.IH [OF q] by (smt (verit) walk_latency_append walk_latency_simps)
qed

lemma walk_reaches:
  assumes "loop_inv (node_ids g) s st" and "opt_inv M g s st" and ok: "graph_ok M g"
    and "t \<in> open_ids st" and "graph_walk g s q v"
  shows "dist_of st v < inf64 \<or> (\<exists>w \<in> open_ids st. dist_of st w < inf64)"
  using assms(5)
proof (induction q arbitrary: v rule: rev_induct)
  case Nil
  then show ?case using assms(1) by (auto simp: loop_inv_def inf64_def max_int64_def)
next
  case (snoc e q)
  then have q: "graph_walk g s q (ge_From e)" and e: "e \<in> set (GetEdgeList g)" "ge_To e = v" "v \<in> node_ids g"
    by (auto simp: graph_walk_append)
  have sub: "open_ids st \<subseteq> node_ids g" using assms(1) by (simp add: loop_inv_def)
  have from_in: "ge_From e \<in> node_ids g"
    using graph_walk_target [OF q] assms(1) by (simp add: loop_inv_def)
  show ?case
  proof (cases "ge_From e \<in> open_ids st")
    case True
    then show ?thesis using snoc.IH [OF q] by blast
  next
    case False
    let ?k = "card (node_ids g - open_ids st)"
    have "dist_of st v \<le> dist_of st (ge_From e) + ge_LatencyMs e"
      using assms(2) e from_in False by (auto simp: opt_inv_def)
    also have "\<dots> \<le> M * int ?k + M"
      using assms(2) e(1) ok from_in False unfolding opt_inv_def graph_ok_def list_all_iff
      by (intro add_mono) auto
    also have "\<dots> = M * (int ?k + 1)" by (simp add: algebra_simps)
    also have "\<dots> \<le> M * int (card (node_ids g))"
      using settled_card_less(1) [OF assms(4) sub] ok
      by (intro mult_left_mono) (auto simp: graph_ok_def)
    also have "\<dots> < inf64" using ok by (simp add: graph_ok_def)
    finally show ?thesis by simp
  qed
qed

lemma final_chain:
  assumes "s \<in> node_ids g" and "t \<in> node_ids g" and "dist_of (final_state ord g s t) t < inf64"
  obtains r where "settled_chain (node_ids g) (final_state ord g s t) s t r"
  using final_loop_inv [OF assms(1,2), of ord] assms(2,3) unfolding loop_inv_def by blast

text \<open>At the end, the target's distance is finite exactly if some walk reaches it.\<close>

lemma final_distance:
  assumes s: "s \<in> node_ids g" and t: "t \<in> node_ids g" and ok: "graph_ok M g"
  shows "dist_of (final_state ord g s t) t < inf64 \<longleftrightarrow> (\<exists>q. graph_walk g s q t)"
    and "graph_walk g s q t \<Longrightarrow> dist_of (final_state ord g s t) t \<le> walk_latency q"
proof -
  let ?st = "final_state ord g s t"
  note li = final_loop_inv [OF s t, of ord] and oi = final_opt_inv [OF s t ok, of ord]
  have le: "dist_of ?st t \<le> inf64" using li t by (simp add: loop_inv_def)
  have fin: "dist_of ?st t < inf64" if "graph_walk g s q t" for q
    using walk_reaches [OF li oi(1) ok oi(2) that] oi(2,3) by fastforce
  moreover have "\<exists>q. graph_walk g s q t" if f: "dist_of ?st t < inf64"
  proof -
    obtain r where "settled_chain (node_ids g) ?st s t r" using final_chain [OF s t f] .
    then show ?thesis using chain_is_walk [OF li oi(1) _ t f] by blast
  qed
  ultimately show "dist_of ?st t < inf64 \<longleftrightarrow> (\<exists>q. graph_walk g s q t)" by blast
  assume w: "graph_walk g s q t"
  have "\<forall>w \<in> open_ids ?st. dist_of ?st t \<le> dist_of ?st w"
    using oi(2,3) fin [OF w] le by fastforce
  then show "dist_of ?st t \<le> walk_latency q"
    using walk_dominated [OF li oi(1) ok w] by force
qed

text \<open>The walk back, whatever the graph: it stops at once for the sentinel, else it follows the chain.\<close>

lemma final_walk_back:
  assumes "settled_chain ids st s t r"
  shows "walk_back (previous st) t [] = Some (if t = -1 then [] else rev (t # r))"
proof (cases "t = -1")
  case True
  then show ?thesis by (simp add: walk_back.simps)
next
  case False
  then show ?thesis
    using walk_back_chain [of "previous st" s "t # r" "[]"] assms by (auto simp: settled_chain_def)
qed

end
