(* ===== verification/Network_Graph.thy ===== *)
theory Network_Graph
  imports Dijkstra_Correct
begin

text \<open>
  The overlay graph of a peer (\<open>internal/peer/peer.go\<close>): a map of nodes by identifier and a map
  of edges by the key \<open>"from-to"\<close>, each operation atomic under the graph's lock, and the two
  snapshots that the routing package reads. The abstract view is a pair of partial maps, and
  the operations are updates of it.
\<close>

section \<open>Definitions\<close>

record network_node =
  nn_ID :: i32
  nn_Address :: string
  nn_LastSeen :: int

record network_edge =
  ne_From :: i32
  ne_To :: i32
  ne_LatencyMs :: int

record network_graph =
  ng_Nodes :: "(i32, network_node) gomap"
  ng_Edges :: "(string, network_edge) gomap"

definition NewNetworkGraph :: network_graph where
  "NewNetworkGraph = \<lparr>ng_Nodes = [], ng_Edges = []\<rparr>"

definition AddNode :: "int \<Rightarrow> i32 \<Rightarrow> string \<Rightarrow> network_graph \<Rightarrow> network_graph" where
  "AddNode now nodeID address g =
     g\<lparr>ng_Nodes := gm_set nodeID \<lparr>nn_ID = nodeID, nn_Address = address, nn_LastSeen = now\<rparr> (ng_Nodes g)\<rparr>"

definition edgeKey :: "i32 \<Rightarrow> i32 \<Rightarrow> string" where
  "edgeKey from to = fmt_d (sint from) @ ''-'' @ fmt_d (sint to)"

definition AddEdge :: "i32 \<Rightarrow> i32 \<Rightarrow> int \<Rightarrow> network_graph \<Rightarrow> network_graph" where
  "AddEdge from to latencyMs g =
     (let key = edgeKey from to
      in g\<lparr>ng_Edges := gm_set key \<lparr>ne_From = from, ne_To = to, ne_LatencyMs = latencyMs\<rparr> (ng_Edges g)\<rparr>)"

definition GetNodes :: "choices \<Rightarrow> network_graph \<Rightarrow> network_node list" where
  "GetNodes cs g = map snd (gm_range cs (ng_Nodes g))"

definition GetEdges :: "choices \<Rightarrow> network_graph \<Rightarrow> network_edge list" where
  "GetEdges cs g = map snd (gm_range cs (ng_Edges g))"

definition peer_GetNodeList :: "choices \<Rightarrow> network_graph \<Rightarrow> graph_node list" where
  "peer_GetNodeList cs g =
     map (\<lambda>(_, n). \<lparr>gn_ID = nn_ID n, gn_Address = nn_Address n, gn_LastSeen = nn_LastSeen n\<rparr>)
       (gm_range cs (ng_Nodes g))"

definition peer_GetEdgeList :: "choices \<Rightarrow> network_graph \<Rightarrow> graph_edge list" where
  "peer_GetEdgeList cs g =
     map (\<lambda>(_, e). \<lparr>ge_From = ne_From e, ge_To = ne_To e, ge_LatencyMs = ne_LatencyMs e\<rparr>)
       (gm_range cs (ng_Edges g))"

text \<open>The graph as a value of the routing package's interface, for one pair of snapshots.\<close>

definition routing_view :: "choices \<Rightarrow> choices \<Rightarrow> network_graph \<Rightarrow> graph" where
  "routing_view cn ce g = \<lparr>GetNodeList = peer_GetNodeList cn g, GetEdgeList = peer_GetEdgeList ce g\<rparr>"

section \<open>Invariant and abstract view\<close>

text \<open>Edge keys determine both ends, negative identifiers included.\<close>

lemma edgeKey_inject [simp]: "edgeKey a b = edgeKey c d \<longleftrightarrow> a = c \<and> b = d"
proof
  assume "edgeKey a b = edgeKey c d"
  then have "sint a = sint c \<and> fmt_d (sint b) = fmt_d (sint d)"
    unfolding edgeKey_def by (intro fmt_d_dash_split) simp
  then show "a = c \<and> b = d" by (auto intro: signed_word_eqI)
qed simp

interpretation edge_key: key_encoding "\<lambda>(from, to). edgeKey from to"
  by unfold_locales auto

definition ng_wf :: "network_graph \<Rightarrow> bool" where
  "ng_wf g \<longleftrightarrow> gm_wf (ng_Nodes g) \<and> gm_wf (ng_Edges g)
     \<and> (\<forall>(k, n) \<in> set (ng_Nodes g). nn_ID n = k)
     \<and> (\<forall>(k, e) \<in> set (ng_Edges g). k = edgeKey (ne_From e) (ne_To e))"

definition node_map :: "network_graph \<Rightarrow> i32 \<Rightarrow> network_node option" where
  "node_map g n = gm_get (ng_Nodes g) n"

definition edge_map :: "network_graph \<Rightarrow> i32 \<times> i32 \<Rightarrow> int option" where
  "edge_map g ft = map_option ne_LatencyMs (gm_get (ng_Edges g) (edgeKey (fst ft) (snd ft)))"

lemma ng_wf_New [simp, intro]: "ng_wf NewNetworkGraph"
  by (simp add: ng_wf_def NewNetworkGraph_def)

lemma ng_wf_AddNode [simp, intro]: "ng_wf g \<Longrightarrow> ng_wf (AddNode now n a g)"
  by (auto simp: ng_wf_def AddNode_def set_gm_set)

lemma ng_wf_AddEdge [simp, intro]: "ng_wf g \<Longrightarrow> ng_wf (AddEdge f t l g)"
  by (auto simp: ng_wf_def AddEdge_def Let_def set_gm_set)

named_theorems overlay_simps \<open>the operations on the abstract view\<close>

lemma node_map_New [overlay_simps]: "node_map NewNetworkGraph = Map.empty"
  by (auto simp: node_map_def NewNetworkGraph_def gm_simps)

lemma edge_map_New [overlay_simps]: "edge_map NewNetworkGraph = Map.empty"
  by (auto simp: edge_map_def NewNetworkGraph_def gm_simps)

lemma node_map_AddNode [overlay_simps]:
  "node_map (AddNode now n a g) = (node_map g)(n \<mapsto> \<lparr>nn_ID = n, nn_Address = a, nn_LastSeen = now\<rparr>)"
  by (auto simp: node_map_def AddNode_def gm_simps)

lemma edge_map_AddNode [overlay_simps]: "edge_map (AddNode now n a g) = edge_map g"
  by (auto simp: edge_map_def AddNode_def)

lemma node_map_AddEdge [overlay_simps]: "node_map (AddEdge f t l g) = node_map g"
  by (auto simp: node_map_def AddEdge_def Let_def)

lemma edge_map_AddEdge [overlay_simps]: "edge_map (AddEdge f t l g) = (edge_map g)((f, t) \<mapsto> l)"
  by (auto simp: edge_map_def AddEdge_def Let_def gm_simps)

text \<open>The snapshots list the abstract maps, each entry once.\<close>

lemma node_entry: "ng_wf g \<Longrightarrow> (k, n) \<in> set (ng_Nodes g) \<longleftrightarrow> node_map g k = Some n"
  by (simp add: ng_wf_def node_map_def gm_get_iff)

lemma node_map_ID: "ng_wf g \<Longrightarrow> node_map g k = Some n \<Longrightarrow> nn_ID n = k"
  unfolding ng_wf_def node_map_def by (auto dest!: gm_get_SomeD)

lemma edge_entry: "ng_wf g \<Longrightarrow> (k, e) \<in> set (ng_Edges g) \<longleftrightarrow> gm_get (ng_Edges g) k = Some e"
  by (simp add: ng_wf_def gm_get_iff)

lemma edge_ends_of_key: "ng_wf g \<Longrightarrow> gm_get (ng_Edges g) k = Some e \<Longrightarrow> k = edgeKey (ne_From e) (ne_To e)"
  unfolding ng_wf_def by (auto dest!: gm_get_SomeD)

lemma GetNodes_iff: "ng_wf g \<Longrightarrow> n \<in> set (GetNodes cs g) \<longleftrightarrow> node_map g (nn_ID n) = Some n"
proof -
  assume wf: "ng_wf g"
  have "n \<in> set (GetNodes cs g) \<longleftrightarrow> (\<exists>k. (k, n) \<in> set (ng_Nodes g))"
    by (force simp: GetNodes_def)
  then show ?thesis using wf node_map_ID by (auto simp: node_entry)
qed

lemma GetNodes_ids: "ng_wf g \<Longrightarrow> nn_ID ` set (GetNodes cs g) = dom (node_map g)"
proof -
  assume wf: "ng_wf g"
  have "nn_ID ` set (GetNodes cs g) = {i. \<exists>n. node_map g (nn_ID n) = Some n \<and> i = nn_ID n}"
    using GetNodes_iff [OF wf, of _ cs] by auto
  also have "\<dots> = dom (node_map g)"
  proof (intro set_eqI iffI)
    fix i
    assume "i \<in> dom (node_map g)"
    then obtain n where "node_map g i = Some n" by blast
    then show "i \<in> {i. \<exists>n. node_map g (nn_ID n) = Some n \<and> i = nn_ID n}" using node_map_ID [OF wf] by auto
  qed auto
  finally show ?thesis .
qed

lemma distinct_GetNodes: "ng_wf g \<Longrightarrow> distinct (map nn_ID (GetNodes cs g))"
proof -
  assume wf: "ng_wf g"
  have "map nn_ID (GetNodes cs g) = map fst (gm_range cs (ng_Nodes g))"
    using wf by (auto simp: GetNodes_def ng_wf_def)
  moreover have "gm_wf (gm_range cs (ng_Nodes g))" using wf by (simp add: ng_wf_def)
  ultimately show ?thesis by (simp add: gm_wf_def)
qed

lemma node_ids_routing_view [simp]: "ng_wf g \<Longrightarrow> node_ids (routing_view cn ce g) = dom (node_map g)"
proof -
  assume "ng_wf g"
  have "node_ids (routing_view cn ce g) = nn_ID ` set (GetNodes cn g)"
    by (auto simp: node_ids_def routing_view_def peer_GetNodeList_def GetNodes_def image_comp split_beta)
  then show ?thesis using GetNodes_ids [OF \<open>ng_wf g\<close>] by simp
qed

lemma edge_list_iff:
  assumes "ng_wf g"
  shows "\<lparr>ge_From = f, ge_To = t, ge_LatencyMs = l\<rparr> \<in> set (peer_GetEdgeList cs g) \<longleftrightarrow> edge_map g (f, t) = Some l"
proof -
  have "\<lparr>ge_From = f, ge_To = t, ge_LatencyMs = l\<rparr> \<in> set (peer_GetEdgeList cs g)
      \<longleftrightarrow> (\<exists>k e. (k, e) \<in> set (ng_Edges g) \<and> f = ne_From e \<and> t = ne_To e \<and> l = ne_LatencyMs e)"
    unfolding peer_GetEdgeList_def set_map set_gm_range image_iff Bex_def split_paired_Ex by auto
  also have "\<dots> \<longleftrightarrow> (\<exists>e. gm_get (ng_Edges g) (edgeKey f t) = Some e \<and> l = ne_LatencyMs e)"
  proof -
    have "gm_get (ng_Edges g) (edgeKey f t) = Some e \<Longrightarrow> f = ne_From e \<and> t = ne_To e" for e
      using edge_ends_of_key [OF assms, of "edgeKey f t" e] by simp
    then show ?thesis unfolding edge_entry [OF assms] using edge_ends_of_key [OF assms] by metis
  qed
  finally show ?thesis by (auto simp: edge_map_def)
qed

lemma distinct_edge_list: "ng_wf g \<Longrightarrow> distinct (map (\<lambda>e. (ge_From e, ge_To e)) (peer_GetEdgeList cs g))"
proof -
  assume wf: "ng_wf g"
  have keys: "edgeKey (ne_From (snd x)) (ne_To (snd x)) = fst x" if "x \<in> set (ng_Edges g)" for x
    using that edge_ends_of_key [OF wf] edge_entry [OF wf] by (metis prod.collapse)
  have "map (\<lambda>(f, t). edgeKey f t) (map (\<lambda>e. (ge_From e, ge_To e)) (peer_GetEdgeList cs g))
      = map fst (gm_range cs (ng_Edges g))"
    using keys by (auto simp: peer_GetEdgeList_def)
  moreover have "gm_wf (gm_range cs (ng_Edges g))" using wf by (simp add: ng_wf_def)
  ultimately have "distinct (map (\<lambda>(f, t). edgeKey f t) (map (\<lambda>e. (ge_From e, ge_To e)) (peer_GetEdgeList cs g)))"
    by (simp only: gm_wf_def)
  then show ?thesis by (rule distinct_map [THEN iffD1, THEN conjunct1])
qed

lemma all_edges: "(\<forall>e \<in> set (peer_GetEdgeList cs g). P e)
    \<longleftrightarrow> (\<forall>f t l. \<lparr>ge_From = f, ge_To = t, ge_LatencyMs = l\<rparr> \<in> set (peer_GetEdgeList cs g)
        \<longrightarrow> P \<lparr>ge_From = f, ge_To = t, ge_LatencyMs = l\<rparr>)"
proof (intro iffI ballI allI impI)
  fix e
  assume h: "\<forall>f t l. \<lparr>ge_From = f, ge_To = t, ge_LatencyMs = l\<rparr> \<in> set (peer_GetEdgeList cs g)
      \<longrightarrow> P \<lparr>ge_From = f, ge_To = t, ge_LatencyMs = l\<rparr>" and e: "e \<in> set (peer_GetEdgeList cs g)"
  have "e = \<lparr>ge_From = ge_From e, ge_To = ge_To e, ge_LatencyMs = ge_LatencyMs e\<rparr>" by simp
  then show "P e" using h e by metis
qed simp

text \<open>When the routing theorems apply: no peer is the sentinel and latencies are moderate.\<close>

lemma routing_view_ok:
  assumes "ng_wf g" and "node_map g (-1) = None" and "\<And>ft l. edge_map g ft = Some l \<Longrightarrow> 0 \<le> l \<and> l \<le> M"
    and "0 \<le> M" and "M * int (card (dom (node_map g))) < inf64"
  shows "graph_ok M (routing_view cn ce g)"
proof -
  have "list_all (\<lambda>e. 0 \<le> ge_LatencyMs e \<and> ge_LatencyMs e \<le> M) (peer_GetEdgeList ce g)"
    using assms(3) unfolding list_all_iff all_edges by (auto simp: edge_list_iff [OF assms(1)])
  moreover have "GetEdgeList (routing_view cn ce g) = peer_GetEdgeList ce g" by (simp add: routing_view_def)
  moreover have "-1 \<notin> node_ids (routing_view cn ce g)" using assms(1,2) by auto
  ultimately show ?thesis unfolding graph_ok_def node_ids_routing_view [OF assms(1)]
    using assms(1,4,5) by simp
qed

end
