(* ===== verification/Go_Format.thy ===== *)
theory Go_Format
  imports Complex_Main Go_Maps
begin

text \<open>
  The part of \<open>fmt\<close> that the program's reports use beyond \<open>%d\<close>: fixed-point numbers (\<open>%.2f\<close>,
  \<open>%.4f\<close>, \<open>%.0f\<close>), durations (\<open>%v\<close>), line ends, and the frame of the titles, drawn with UTF-8
  box characters.
\<close>

text \<open>\<open>%.kf\<close> of a non-negative value: the exact value rounded to \<open>k\<close> decimals, ties to even.\<close>

definition round_even :: "real \<Rightarrow> int" where
  "round_even x = (let n = \<lfloor>x\<rfloor>; d = x - of_int n in
     if d < 1 / 2 then n else if d > 1 / 2 then n + 1 else if even n then n else n + 1)"

fun fixed_digits :: "nat \<Rightarrow> int \<Rightarrow> string" where
  "fixed_digits 0 n = []"
| "fixed_digits (Suc k) n = fixed_digits k (n div 10) @ fmt_d (n mod 10)"

definition fmt_f :: "nat \<Rightarrow> real \<Rightarrow> string" where
  "fmt_f k x = (let n = round_even (x * 10 ^ k) in fmt_d (n div 10 ^ k) @ ''.'' @ fixed_digits k (n mod 10 ^ k))"

text \<open>\<open>%.0f\<close>: no decimals and no point.\<close>

definition fmt_f0 :: "real \<Rightarrow> string" where
  "fmt_f0 x = (if x < 0 then ''-'' else []) @ fmt_d (round_even \<bar>x\<bar>)"

text \<open>
  \<open>Duration.String\<close>: nanoseconds, microseconds and milliseconds below a second, hours, minutes and
  seconds above; of the fraction the trailing zeros are dropped, and the point with the last one.
\<close>

definition fmt_frac :: "nat \<Rightarrow> int \<Rightarrow> string" where
  "fmt_frac k u =
     (let ds = rev (dropWhile (\<lambda>c. c = CHR ''0'') (rev (fixed_digits k (u mod 10 ^ k))))
      in fmt_d (u div 10 ^ k) @ (if ds = [] then [] else ''.'' @ ds))"

definition clock_part :: "int \<Rightarrow> string" where
  "clock_part s =
     (if s < 60 then []
      else let m = s div 60
           in (if m < 60 then [] else fmt_d (m div 60) @ ''h'') @ fmt_d (m mod 60) @ ''m'')"

definition fmt_duration :: "int \<Rightarrow> string" where
  "fmt_duration d =
     (let u = \<bar>d\<bar> in
      (if d < 0 then ''-'' else [])
      @ (if u = 0 then ''0s''
         else if u < 1000 then fmt_d u @ ''ns''
         else if u < 1000000 then fmt_frac 3 u @ map char_of [194, 181 :: nat] @ ''s''
         else if u < 1000000000 then fmt_frac 6 u @ ''ms''
         else let s = u div 1000000000
              in clock_part s @ fmt_frac 9 (u mod 1000000000 + (s mod 60) * 1000000000) @ ''s''))"

lemma duration_samples:
  "fmt_duration 1500000 = ''1.5ms''" "fmt_duration 2000000000 = ''2s''" "fmt_duration 0 = ''0s''"
  "fmt_duration 999 = ''999ns''" "fmt_duration (-100000000) = ''-100ms''"
  "fmt_duration 3725050000000 = ''1h2m5.05s''"
  by code_simp+

definition newline :: string where
  "newline = [char_of (10 :: nat)]"

definition box_char :: "nat \<Rightarrow> string" where
  "box_char c = map char_of [226, 149, c :: nat]"

definition box_bar :: string where
  "box_bar = concat (replicate 36 (box_char 144))"

text \<open>The three lines of a framed title.\<close>

definition box_title :: "string \<Rightarrow> string" where
  "box_title title =
     box_char 148 @ box_bar @ box_char 151 @ newline
     @ box_char 145 @ title @ box_char 145 @ newline
     @ box_char 154 @ box_bar @ box_char 157 @ newline"

end
