(* ===== verification/Go_Hash.thy ===== *)
theory Go_Hash
  imports Go_Maps
begin

text \<open>
  The hash functions of Go's standard library that the program calls, written out in full:
  FNV-1 and FNV-1a (\<open>hash/fnv\<close>), SHA-256 (\<open>crypto/sha256\<close>, FIPS 180-4), hexadecimal
  encoding (\<open>encoding/hex\<close>) and big-endian words (\<open>encoding/binary\<close>). They are executable,
  so results of the model are concrete values.
\<close>

unbundle bit_operations_syntax

section \<open>Strings and byte slices\<close>

text \<open>A Go string is a sequence of bytes; \<open>[]byte(s)\<close> and \<open>string(bs)\<close> convert.\<close>

definition str_bytes :: "string \<Rightarrow> bytes" where
  "str_bytes s = map of_char s"

definition bytes_str :: "bytes \<Rightarrow> string" where
  "bytes_str bs = map (\<lambda>b. char_of (unat b)) bs"

lemma unat_byte_less: "unat (b :: byte) < 256"
  using unsigned_less [of b, where ?'a = nat] by simp

lemma unat_of_char_byte: "unat (of_char c :: byte) = of_char c"
proof -
  have "(of_char c :: byte) = word_of_nat (of_char c)"
    by (simp add: of_nat_of_char)
  moreover have "unat (word_of_nat (of_char c) :: byte) = of_char c"
    using nat_of_char_less_256 [of c] by (simp add: unat_of_nat)
  ultimately show ?thesis by simp
qed

lemma bytes_str_bytes [simp]: "bytes_str (str_bytes s) = s"
  by (induction s) (simp_all add: bytes_str_def str_bytes_def unat_of_char_byte)

lemma of_char_char_of_byte: "of_char (char_of (unat b)) = (b :: byte)"
proof -
  have "(of_char (char_of (unat b)) :: nat) = unat b"
    using unat_byte_less [of b] by simp
  then have "(of_nat (of_char (char_of (unat b)) :: nat) :: byte) = b"
    by simp
  then show ?thesis by (simp only: of_nat_of_char)
qed

lemma str_bytes_str [simp]: "str_bytes (bytes_str bs) = bs"
  by (induction bs) (simp_all add: bytes_str_def str_bytes_def of_char_char_of_byte)

lemma length_bytes_str [simp]: "length (bytes_str bs) = length bs"
  by (simp add: bytes_str_def)

lemma length_str_bytes [simp]: "length (str_bytes s) = length s"
  by (simp add: str_bytes_def)

lemma str_bytes_inject [simp]: "str_bytes s = str_bytes t \<longleftrightarrow> s = t"
  by (metis bytes_str_bytes)

lemma bytes_str_inject [simp]: "bytes_str s = bytes_str t \<longleftrightarrow> s = t"
  by (metis str_bytes_str)

section \<open>Big-endian words\<close>

text \<open>\<open>binary.BigEndian.PutUint32\<close>.\<close>

definition be32 :: "u32 \<Rightarrow> bytes" where
  "be32 w = [ucast (drop_bit 24 w), ucast (drop_bit 16 w), ucast (drop_bit 8 w), ucast w]"

definition be32_word :: "bytes \<Rightarrow> u32" where
  "be32_word bs =
     push_bit 24 (ucast (bs ! 0)) OR push_bit 16 (ucast (bs ! 1))
     OR push_bit 8 (ucast (bs ! 2)) OR ucast (bs ! 3)"

lemma be32_word_be32 [simp]: "be32_word (be32 w) = w"
proof (rule bit_word_eqI)
  fix n
  assume n: "n < LENGTH(32)"
  consider "n < 8" | "8 \<le> n" "n < 16" | "16 \<le> n" "n < 24" | "24 \<le> n" by linarith
  then show "bit (be32_word (be32 w)) n = bit w n"
    by cases (use n in \<open>auto simp: be32_word_def be32_def bit_or_iff bit_push_bit_iff
        bit_ucast_iff bit_drop_bit_eq\<close>)
qed

lemma be32_inject [simp]: "be32 v = be32 w \<longleftrightarrow> v = w"
  by (metis be32_word_be32)

lemma length_be32 [simp]: "length (be32 w) = 4"
  by (simp add: be32_def)

section \<open>FNV\<close>

definition fnv_offset32 :: u32 where
  "fnv_offset32 = 2166136261"

definition fnv_prime32 :: u32 where
  "fnv_prime32 = 16777619"

text \<open>\<open>fnv.New32a\<close>: xor, then multiply. \<open>fnv.New32\<close>: multiply, then xor.\<close>

definition fnv32a :: "bytes \<Rightarrow> u32" where
  "fnv32a bs = foldl (\<lambda>h b. (h XOR ucast b) * fnv_prime32) fnv_offset32 bs"

definition fnv32 :: "bytes \<Rightarrow> u32" where
  "fnv32 bs = foldl (\<lambda>h b. (h * fnv_prime32) XOR ucast b) fnv_offset32 bs"

section \<open>SHA-256\<close>

definition rotr32 :: "nat \<Rightarrow> u32 \<Rightarrow> u32" where
  "rotr32 n w = drop_bit n w OR push_bit (32 - n) w"

definition sha_ch :: "u32 \<Rightarrow> u32 \<Rightarrow> u32 \<Rightarrow> u32" where
  "sha_ch x y z = (x AND y) XOR (NOT x AND z)"

definition sha_maj :: "u32 \<Rightarrow> u32 \<Rightarrow> u32 \<Rightarrow> u32" where
  "sha_maj x y z = (x AND y) XOR (x AND z) XOR (y AND z)"

definition sha_S0 :: "u32 \<Rightarrow> u32" where
  "sha_S0 x = rotr32 2 x XOR rotr32 13 x XOR rotr32 22 x"

definition sha_S1 :: "u32 \<Rightarrow> u32" where
  "sha_S1 x = rotr32 6 x XOR rotr32 11 x XOR rotr32 25 x"

definition sha_s0 :: "u32 \<Rightarrow> u32" where
  "sha_s0 x = rotr32 7 x XOR rotr32 18 x XOR drop_bit 3 x"

definition sha_s1 :: "u32 \<Rightarrow> u32" where
  "sha_s1 x = rotr32 17 x XOR rotr32 19 x XOR drop_bit 10 x"

text \<open>The round constants and the initial state of FIPS 180-4, in decimal.\<close>

definition sha_K :: "u32 list" where
  "sha_K =
    [
     1116352408, 1899447441, 3049323471, 3921009573, 961987163, 1508970993, 2453635748, 2870763221,
     3624381080, 310598401, 607225278, 1426881987, 1925078388, 2162078206, 2614888103, 3248222580,
     3835390401, 4022224774, 264347078, 604807628, 770255983, 1249150122, 1555081692, 1996064986,
     2554220882, 2821834349, 2952996808, 3210313671, 3336571891, 3584528711, 113926993, 338241895,
     666307205, 773529912, 1294757372, 1396182291, 1695183700, 1986661051, 2177026350, 2456956037,
     2730485921, 2820302411, 3259730800, 3345764771, 3516065817, 3600352804, 4094571909, 275423344,
     430227734, 506948616, 659060556, 883997877, 958139571, 1322822218, 1537002063, 1747873779,
     1955562222, 2024104815, 2227730452, 2361852424, 2428436474, 2756734187, 3204031479, 3329325298
    ]"

type_synonym sha_state = "u32 \<times> u32 \<times> u32 \<times> u32 \<times> u32 \<times> u32 \<times> u32 \<times> u32"

definition sha_init :: sha_state where
  "sha_init =
     (1779033703, 3144134277, 1013904242, 2773480762,
      1359893119, 2600822924, 528734635, 1541459225)"

text \<open>Padding: a 1 bit, zeros up to 56 modulo 64 bytes, the length in bits (64 bits).\<close>

definition sha_pad :: "bytes \<Rightarrow> bytes" where
  "sha_pad bs =
     (let n = length bs; bits = 8 * int n
      in bs @ [0x80] @ replicate ((119 - n mod 64) mod 64) 0
         @ be32 (word_of_int (bits div 4294967296)) @ be32 (word_of_int bits))"

text \<open>The schedule keeps the last sixteen words, newest last.\<close>

fun sha_words :: "bytes \<Rightarrow> u32 list" where
  "sha_words (a # b # c # d # bs) = be32_word [a, b, c, d] # sha_words bs"
| "sha_words _ = []"

fun sha_rounds :: "u32 list \<Rightarrow> u32 list \<Rightarrow> sha_state \<Rightarrow> sha_state" where
  "sha_rounds [] ws st = st"
| "sha_rounds (k # ks) ws (a, b, c, d, e, f, g, h) =
     (let w = hd ws;
          t1 = h + sha_S1 e + sha_ch e f g + k + w;
          t2 = sha_S0 a + sha_maj a b c;
          w' = sha_s1 (ws ! 14) + ws ! 9 + sha_s0 (ws ! 1) + w
      in sha_rounds ks (tl ws @ [w']) (t1 + t2, a, b, c, d + t1, e, f, g))"

definition sha_block :: "sha_state \<Rightarrow> bytes \<Rightarrow> sha_state" where
  "sha_block st blk =
     (case (st, sha_rounds sha_K (sha_words blk) st) of
        ((a, b, c, d, e, f, g, h), (a', b', c', d', e', f', g', h')) \<Rightarrow>
          (a + a', b + b', c + c', d + d', e + e', f + f', g + g', h + h'))"

function sha_blocks :: "sha_state \<Rightarrow> bytes \<Rightarrow> sha_state" where
  "sha_blocks st bs = (if length bs < 64 then st else sha_blocks (sha_block st (take 64 bs)) (drop 64 bs))"
  by pat_completeness auto
termination
  by (relation "measure (\<lambda>(st, bs). length bs)") auto

declare sha_blocks.simps [simp del]

definition sha256 :: "bytes \<Rightarrow> bytes" where
  "sha256 bs =
     (case sha_blocks sha_init (sha_pad bs) of (a, b, c, d, e, f, g, h) \<Rightarrow>
        be32 a @ be32 b @ be32 c @ be32 d @ be32 e @ be32 f @ be32 g @ be32 h)"

lemma length_sha256 [simp]: "length (sha256 bs) = 32"
  by (simp add: sha256_def split: prod.split)

text \<open>The padded message is a whole number of blocks, so no byte is left unread.\<close>

lemma sha_pad_blocks: "length (sha_pad bs) mod 64 = 0"
proof -
  define r where "r = length bs mod 64"
  have "r < 64" by (simp add: r_def)
  then have "(r + 9 + (119 - r) mod 64) mod 64 = 0"
    by (cases "r < 56") (auto simp: mod_if)
  then have "(length bs + 9 + (119 - r) mod 64) mod 64 = 0"
    by (simp add: r_def mod_simps add.assoc)
  then show ?thesis by (simp add: sha_pad_def Let_def r_def ac_simps)
qed

section \<open>Hexadecimal\<close>

definition hex_digit :: "nat \<Rightarrow> char" where
  "hex_digit n = ''0123456789abcdef'' ! n"

text \<open>\<open>hex.EncodeToString\<close>.\<close>

definition hex_encode :: "bytes \<Rightarrow> string" where
  "hex_encode bs = concat (map (\<lambda>b. [hex_digit (unat b div 16), hex_digit (unat b mod 16)]) bs)"

lemma length_hex_encode [simp]: "length (hex_encode bs) = 2 * length bs"
  by (induction bs) (simp_all add: hex_encode_def)

lemma hex_digit_inject: "m < 16 \<Longrightarrow> n < 16 \<Longrightarrow> hex_digit m = hex_digit n \<longleftrightarrow> m = n"
  unfolding hex_digit_def by (rule nth_eq_iff_index_eq) simp_all

lemma byte_nibbles:
  assumes "unat a div 16 = unat b div 16" and "unat a mod 16 = unat b mod 16"
  shows "a = (b :: byte)"
  by (metis assms div_mult_mod_eq unsigned_word_eqI)

lemma byte_div16: "unat (b :: byte) div 16 < 16"
  using unat_byte_less [of b] by simp

lemma hex_encode_inject [simp]: "hex_encode xs = hex_encode ys \<longleftrightarrow> xs = ys"
proof (induction xs arbitrary: ys)
  case Nil
  then show ?case by (cases ys) (simp_all add: hex_encode_def)
next
  case (Cons x xs)
  then show ?case
    by (cases ys) (auto simp: hex_encode_def hex_digit_inject byte_div16 intro: byte_nibbles)
qed

end
