(* ===== verification/Bloom_Filter.thy ===== *)
theory Bloom_Filter
  imports Complex_Main Go_Hash
begin

text \<open>
  The Bloom filter (\<open>internal/storage/bloom.go\<close>): its byte array, double hashing over FNV,
  insertion, the membership test with its early exit, merging and serialization. Indexing
  the byte array and the modulus by the number of bits panic where Go does. The abstract
  view of a filter is the set of its bit positions that are set.

  Floating point: \<open>float64\<close> values are reals, and every operation of the source is followed
  by the rounding function \<open>fl\<close>, a parameter (IEEE 754 rounding and the accuracy of
  \<open>math.Log\<close>, \<open>math.Exp\<close> and \<open>math.Pow\<close> are not modelled further).
\<close>

section \<open>Definitions\<close>

record bloom_filter =
  bitArray :: bytes
  numBits :: int
  numHashes :: int
  itemCount :: int

text \<open>\<open>math.Ln2\<close> is the decimal constant of the standard library.\<close>

definition math_Ln2 :: real where
  "math_Ln2 = 0.693147180559945309417232121458176568"

definition optimalNumBits :: "(real \<Rightarrow> real) \<Rightarrow> int \<Rightarrow> real \<Rightarrow> int" where
  "optimalNumBits fl n p =
     (let m = fl (fl (fl (-1 * fl (of_int n)) * fl (ln p)) / fl (math_Ln2 * math_Ln2)) in \<lceil>m\<rceil>)"

text \<open>\<open>math.Round\<close> rounds half away from zero.\<close>

definition math_Round :: "real \<Rightarrow> int" where
  "math_Round x = (if x < 0 then - \<lfloor>- x + 1 / 2\<rfloor> else \<lfloor>x + 1 / 2\<rfloor>)"

definition optimalNumHashes :: "(real \<Rightarrow> real) \<Rightarrow> int \<Rightarrow> int \<Rightarrow> int" where
  "optimalNumHashes fl m n =
     (let k = fl (fl (fl (of_int m) / fl (of_int n)) * fl math_Ln2);
          rounded = math_Round k
      in if rounded < 1 then 1 else rounded)"

text \<open>\<open>make([]byte, n)\<close> panics on a negative length.\<close>

definition NewBloomFilter :: "(real \<Rightarrow> real) \<Rightarrow> int \<Rightarrow> real \<Rightarrow> (error, bloom_filter) outcome" where
  "NewBloomFilter fl expectedItems falsePositiveRate =
     (let nb = optimalNumBits fl expectedItems falsePositiveRate;
          nh = optimalNumHashes fl nb expectedItems;
          size = go_quot (nb + 7) 8
      in if size < 0 then Panic Make_Slice_Size
         else Return \<lparr>bitArray = replicate (nat size) 0, numBits = nb, numHashes = nh, itemCount = 0\<rparr>)"

definition baseHashes :: "string \<Rightarrow> u32 \<times> u32" where
  "baseHashes key = (fnv32a (str_bytes key), fnv32 (str_bytes key))"

definition combinedHash :: "u32 \<Rightarrow> u32 \<Rightarrow> int \<Rightarrow> u32" where
  "combinedHash h1 h2 i = h1 + word_of_int i * h2"

text \<open>\<open>bf.combinedHash(h1, h2, i) % uint32(bf.numBits)\<close>, shared by the two loops.\<close>

definition bitPos :: "bloom_filter \<Rightarrow> u32 \<Rightarrow> u32 \<Rightarrow> int \<Rightarrow> (error, int) outcome" where
  "bitPos bf h1 h2 i =
     (let m = word_of_int (numBits bf) :: u32
      in if m = 0 then Panic Divide_By_Zero else Return (uint (combinedHash h1 h2 i mod m)))"

text \<open>\<open>pos % 8\<close> as a shift count; a negative remainder becomes a huge unsigned one.\<close>

definition bit_index :: "int \<Rightarrow> nat" where
  "bit_index pos = nat (go_rem pos 8 mod 18446744073709551616)"

definition setBit :: "bloom_filter \<Rightarrow> int \<Rightarrow> (error, bloom_filter) outcome" where
  "setBit bf pos =
     bind_outcome (slice_get (bitArray bf) (go_quot pos 8)) (\<lambda>b.
     bind_outcome (slice_set (bitArray bf) (go_quot pos 8) (b OR push_bit (bit_index pos) 1)) (\<lambda>arr.
     Return (bf\<lparr>bitArray := arr\<rparr>)))"

definition getBit :: "bloom_filter \<Rightarrow> int \<Rightarrow> (error, bool) outcome" where
  "getBit bf pos =
     bind_outcome (slice_get (bitArray bf) (go_quot pos 8)) (\<lambda>b.
     Return (b AND push_bit (bit_index pos) 1 \<noteq> 0))"

definition Add :: "bloom_filter \<Rightarrow> string \<Rightarrow> (error, bloom_filter) outcome" where
  "Add bf key =
     (let (h1, h2) = baseHashes key
      in bind_outcome
           (for_each (\<lambda>i bf. bind_outcome (bitPos bf h1 h2 i) (\<lambda>pos. setBit bf pos))
              [0..numHashes bf - 1] bf)
           (\<lambda>bf. Return (bf\<lparr>itemCount := wrap64 (itemCount bf + 1)\<rparr>)))"

fun probe_loop :: "bloom_filter \<Rightarrow> u32 \<Rightarrow> u32 \<Rightarrow> int list \<Rightarrow> (error, bool) outcome" where
  "probe_loop bf h1 h2 [] = Return True"
| "probe_loop bf h1 h2 (i # is) =
     bind_outcome (bitPos bf h1 h2 i) (\<lambda>pos.
     bind_outcome (getBit bf pos) (\<lambda>b.
     if \<not> b then Return False else probe_loop bf h1 h2 is))"

definition MightContain :: "bloom_filter \<Rightarrow> string \<Rightarrow> (error, bool) outcome" where
  "MightContain bf key =
     (let (h1, h2) = baseHashes key in probe_loop bf h1 h2 [0..numHashes bf - 1])"

definition EstimatedFalsePositiveRate :: "(real \<Rightarrow> real) \<Rightarrow> bloom_filter \<Rightarrow> real" where
  "EstimatedFalsePositiveRate fl bf =
     (let k = fl (of_int (numHashes bf));
          n = fl (of_int (itemCount bf));
          m = fl (of_int (numBits bf));
          ex = fl (fl (- k * n) / m);
          inner = fl (1 - fl (exp ex))
      in fl (inner powr k))"

definition Serialize :: "bloom_filter \<Rightarrow> bytes \<times> i32 \<times> i32 \<times> i32" where
  "Serialize bf =
     (bitArray bf, word_of_int (numBits bf), word_of_int (numHashes bf), word_of_int (itemCount bf))"

definition DeserializeBloomFilter :: "bytes \<Rightarrow> i32 \<Rightarrow> i32 \<Rightarrow> i32 \<Rightarrow> bloom_filter" where
  "DeserializeBloomFilter arr nb nh ic =
     \<lparr>bitArray = arr, numBits = sint nb, numHashes = sint nh, itemCount = sint ic\<rparr>"

definition ErrIncompatibleFilters :: error where
  "ErrIncompatibleFilters = ''bloom filters have different sizes and cannot be merged''"

definition Merge :: "bloom_filter \<Rightarrow> bloom_filter \<Rightarrow> (error, bloom_filter) outcome" where
  "Merge bf other =
     (if numBits bf \<noteq> numBits other then Fail ErrIncompatibleFilters
      else
        bind_outcome
          (for_each
             (\<lambda>i arr. bind_outcome (slice_get arr i) (\<lambda>x.
                      bind_outcome (slice_get (bitArray other) i) (\<lambda>y.
                      slice_set arr i (x OR y))))
             [0..int (length (bitArray bf)) - 1] (bitArray bf))
          (\<lambda>arr. Return (bf\<lparr>bitArray := arr\<rparr>)))"

record bloom_stats =
  bs_NumBits :: int
  bs_NumHashes :: int
  bs_ItemCount :: int
  bs_EstimatedFPRate :: real
  bs_SizeBytes :: nat

definition Stats :: "(real \<Rightarrow> real) \<Rightarrow> bloom_filter \<Rightarrow> bloom_stats" where
  "Stats fl bf =
     \<lparr>bs_NumBits = numBits bf, bs_NumHashes = numHashes bf, bs_ItemCount = itemCount bf,
      bs_EstimatedFPRate = EstimatedFalsePositiveRate fl bf, bs_SizeBytes = length (bitArray bf)\<rparr>"

text \<open>The key of a chunk: the file, a colon, and the index as four big-endian bytes.\<close>

definition ChunkKey :: "string \<Rightarrow> i32 \<Rightarrow> string" where
  "ChunkKey fileID chunkIndex = fileID @ '':'' @ bytes_str (be32 chunkIndex)"

section \<open>Well-formed filters and their abstract view\<close>

text \<open>What \<open>NewBloomFilter\<close> builds: some bits, fewer than \<open>2\<^bsup>31\<^esup>\<close>, and the bytes to hold them.\<close>

definition bloom_wf :: "bloom_filter \<Rightarrow> bool" where
  "bloom_wf bf \<longleftrightarrow> 0 < numBits bf \<and> numBits bf < 2147483648
     \<and> int (length (bitArray bf)) = (numBits bf + 7) div 8"

definition bits_of :: "bloom_filter \<Rightarrow> nat set" where
  "bits_of bf = {p. p < nat (numBits bf) \<and> bit (bitArray bf ! (p div 8)) (p mod 8)}"

definition position :: "int \<Rightarrow> string \<Rightarrow> int \<Rightarrow> nat" where
  "position nb key i =
     unat (combinedHash (fnv32a (str_bytes key)) (fnv32 (str_bytes key)) i mod (word_of_int nb :: u32))"

definition positions :: "int \<Rightarrow> int \<Rightarrow> string \<Rightarrow> nat list" where
  "positions nb nh key = map (position nb key) [0..nh - 1]"

text \<open>Chunk keys determine the file and the index: the contract of a key encoding.\<close>

lemma ChunkKey_inject: "ChunkKey f i = ChunkKey g j \<longleftrightarrow> f = g \<and> i = j"
  by (auto simp: ChunkKey_def)

interpretation chunk_key: key_encoding "\<lambda>(fileID, index). ChunkKey fileID index"
  by unfold_locales (auto simp: ChunkKey_inject)

lemma uint_numBits:
  assumes "bloom_wf bf"
  shows "uint (word_of_int (numBits bf) :: u32) = numBits bf"
    and "(word_of_int (numBits bf) :: u32) \<noteq> 0"
proof -
  show u: "uint (word_of_int (numBits bf) :: u32) = numBits bf"
    using assms by (simp add: bloom_wf_def uint_word_of_int)
  show "(word_of_int (numBits bf) :: u32) \<noteq> 0"
    using u assms by (auto simp: bloom_wf_def)
qed

lemma position_less: "bloom_wf bf \<Longrightarrow> position (numBits bf) key i < nat (numBits bf)"
proof -
  assume wf: "bloom_wf bf"
  let ?m = "word_of_int (numBits bf) :: u32"
  have "unat (w mod ?m) < unat ?m" for w :: u32
    using uint_numBits(2) [OF wf] by (simp add: unat_mod_distrib word_less_nat_alt unat_gt_0)
  then show ?thesis
    using uint_numBits(1) [OF wf] unfolding position_def by (metis nat_uint_eq)
qed

lemma bitPos_wf:
  "bloom_wf bf \<Longrightarrow> bitPos bf (fnv32a (str_bytes key)) (fnv32 (str_bytes key)) i
     = Return (int (position (numBits bf) key i))"
  by (simp add: bitPos_def Let_def uint_numBits(2) position_def)

lemma byte_in_range: "bloom_wf bf \<Longrightarrow> p < nat (numBits bf) \<Longrightarrow> p div 8 < length (bitArray bf)"
  by (simp add: bloom_wf_def) linarith

lemma bit_index_nat: "bit_index (int p) = p mod 8"
proof -
  have "bit_index (int p) = nat (int (p mod 8) mod 18446744073709551616)"
    by (simp add: bit_index_def go_rem_nonneg zmod_int)
  also have "int (p mod 8) mod 18446744073709551616 = int (p mod 8)"
    by (rule mod_pos_pos_trivial) (auto intro: le_less_trans [of _ 8])
  finally show ?thesis by simp
qed

lemma go_quot_8_nat: "go_quot (int p) 8 = int (p div 8)"
  by (simp add: go_quot_nonneg zdiv_int)

lemma getBit_wf:
  assumes "bloom_wf bf" and "p < nat (numBits bf)"
  shows "getBit bf (int p) = Return (p \<in> bits_of bf)"
  using byte_in_range [OF assms] assms(2)
  by (simp add: getBit_def slice_get_def go_quot_8_nat bit_index_nat bits_of_def)
    (simp add: bit_iff_and_push_bit_not_eq_0)

lemma setBit_wf:
  assumes "bloom_wf bf" and "p < nat (numBits bf)"
  shows "\<exists>bf'. setBit bf (int p) = Return bf' \<and> bloom_wf bf' \<and> bits_of bf' = insert p (bits_of bf)
    \<and> numBits bf' = numBits bf \<and> numHashes bf' = numHashes bf \<and> itemCount bf' = itemCount bf"
proof -
  let ?j = "p div 8"
  let ?arr = "(bitArray bf)[?j := bitArray bf ! ?j OR push_bit (p mod 8) 1]"
  have j: "?j < length (bitArray bf)" using byte_in_range [OF assms] .
  have eq: "setBit bf (int p) = Return (bf\<lparr>bitArray := ?arr\<rparr>)"
    using j by (simp add: setBit_def slice_get_def slice_set_def go_quot_8_nat bit_index_nat)
  have "bit (?arr ! (q div 8)) (q mod 8) \<longleftrightarrow> q = p \<or> bit (bitArray bf ! (q div 8)) (q mod 8)" for q
  proof (cases "q div 8 = ?j")
    case True
    have "bit (push_bit (p mod 8) (1 :: byte)) (q mod 8) \<longleftrightarrow> q mod 8 = p mod 8"
      by (auto simp: bit_exp_iff intro: less_le_trans [of _ 8])
    moreover have "q mod 8 = p mod 8 \<longleftrightarrow> q = p"
      using True by (metis div_mult_mod_eq)
    ultimately show ?thesis using True j by (auto simp: bit_or_iff)
  next
    case False
    then have "q \<noteq> p" by auto
    with False show ?thesis by simp
  qed
  then have "bits_of (bf\<lparr>bitArray := ?arr\<rparr>) = insert p (bits_of bf)"
    using assms(2) by (auto simp: bits_of_def)
  moreover have "bloom_wf (bf\<lparr>bitArray := ?arr\<rparr>)" using assms(1) by (simp add: bloom_wf_def)
  ultimately show ?thesis using eq by simp
qed

section \<open>Refinement: a filter is the set of its bits\<close>

text \<open>Insertion never panics and sets exactly the key's positions.\<close>

lemma Add_loop_wf:
  assumes "bloom_wf bf"
  shows "\<exists>bf'. for_each (\<lambda>i bf. bind_outcome (bitPos bf (fnv32a (str_bytes key)) (fnv32 (str_bytes key)) i)
                              (\<lambda>pos. setBit bf pos)) is bf = Return bf'
    \<and> bloom_wf bf' \<and> bits_of bf' = bits_of bf \<union> set (map (position (numBits bf) key) is)
    \<and> numBits bf' = numBits bf \<and> numHashes bf' = numHashes bf \<and> itemCount bf' = itemCount bf"
  using assms
proof (induction "is" arbitrary: bf)
  case (Cons i "is")
  let ?p = "position (numBits bf) key i"
  obtain bf1 where bf1: "setBit bf (int ?p) = Return bf1" "bloom_wf bf1" "bits_of bf1 = insert ?p (bits_of bf)"
      "numBits bf1 = numBits bf" "numHashes bf1 = numHashes bf" "itemCount bf1 = itemCount bf"
    using setBit_wf [OF Cons.prems position_less [OF Cons.prems]] by blast
  then show ?case using Cons.IH [OF bf1(2)] bitPos_wf [OF Cons.prems] by auto
qed simp

lemma Add_wf:
  assumes "bloom_wf bf"
  shows "\<exists>bf'. Add bf key = Return bf' \<and> bloom_wf bf'
    \<and> bits_of bf' = bits_of bf \<union> set (positions (numBits bf) (numHashes bf) key)
    \<and> numBits bf' = numBits bf \<and> numHashes bf' = numHashes bf \<and> itemCount bf' = wrap64 (itemCount bf + 1)"
proof -
  obtain bf' where "for_each (\<lambda>i bf. bind_outcome (bitPos bf (fnv32a (str_bytes key)) (fnv32 (str_bytes key)) i)
        (\<lambda>pos. setBit bf pos)) [0..numHashes bf - 1] bf = Return bf'"
      "bloom_wf bf'" "bits_of bf' = bits_of bf \<union> set (positions (numBits bf) (numHashes bf) key)"
      "numBits bf' = numBits bf" "numHashes bf' = numHashes bf" "itemCount bf' = itemCount bf"
    using Add_loop_wf [OF assms, of key "[0..numHashes bf - 1]"] unfolding positions_def by blast
  then show ?thesis
    by (simp add: Add_def baseHashes_def bloom_wf_def bits_of_def)
qed

text \<open>The membership test is the subset test on the abstract filter.\<close>

lemma probe_loop_wf:
  "bloom_wf bf \<Longrightarrow>
   probe_loop bf (fnv32a (str_bytes key)) (fnv32 (str_bytes key)) is
     = Return (set (map (position (numBits bf) key) is) \<subseteq> bits_of bf)"
  by (induction "is") (simp_all add: bitPos_wf getBit_wf position_less)

lemma MightContain_wf:
  "bloom_wf bf \<Longrightarrow>
   MightContain bf key = Return (set (positions (numBits bf) (numHashes bf) key) \<subseteq> bits_of bf)"
  by (simp add: MightContain_def baseHashes_def probe_loop_wf positions_def)

section \<open>The contract of an approximate membership filter\<close>

text \<open>
  What the users of the filter rely on: on a filter that satisfies its invariant insertion
  and test return; an inserted key is found; insertion never makes a key be lost.
\<close>

locale membership_filter =
  fixes finv :: "'f \<Rightarrow> bool"
    and fadd :: "'f \<Rightarrow> 'k \<Rightarrow> ('e, 'f) outcome"
    and ftest :: "'f \<Rightarrow> 'k \<Rightarrow> ('e, bool) outcome"
  assumes add_law: "finv f \<Longrightarrow> \<exists>f'. fadd f k = Return f' \<and> finv f' \<and> ftest f' k = Return True
      \<and> (\<forall>j. ftest f j = Return True \<longrightarrow> ftest f' j = Return True)"
    and test_law: "finv f \<Longrightarrow> \<exists>b. ftest f k = Return b"
begin

lemma add_each:
  assumes "finv f"
  shows "\<exists>f'. for_each (\<lambda>k f. fadd f k) ks f = Return f' \<and> finv f'
    \<and> (\<forall>k \<in> set ks. ftest f' k = Return True)
    \<and> (\<forall>j. ftest f j = Return True \<longrightarrow> ftest f' j = Return True)"
  using assms
proof (induction ks arbitrary: f)
  case Nil
  then show ?case by simp
next
  case (Cons k ks)
  obtain f1 where f1: "fadd f k = Return f1" "finv f1" "ftest f1 k = Return True"
      "\<forall>j. ftest f j = Return True \<longrightarrow> ftest f1 j = Return True"
    using add_law [OF Cons.prems] by blast
  then show ?case using Cons.IH [OF f1(2)] by auto
qed

end

interpretation bloom: membership_filter bloom_wf Add MightContain
proof
  fix bf :: bloom_filter and key
  assume wf: "bloom_wf bf"
  obtain bf' where bf': "Add bf key = Return bf'" "bloom_wf bf'"
      "bits_of bf' = bits_of bf \<union> set (positions (numBits bf) (numHashes bf) key)"
      "numBits bf' = numBits bf" "numHashes bf' = numHashes bf"
    using Add_wf [OF wf] by blast
  then show "\<exists>bf'. Add bf key = Return bf' \<and> bloom_wf bf' \<and> MightContain bf' key = Return True
      \<and> (\<forall>j. MightContain bf j = Return True \<longrightarrow> MightContain bf' j = Return True)"
    using wf by (auto simp: MightContain_wf)
  show "\<exists>b. MightContain bf key = Return b" using wf by (simp add: MightContain_wf)
qed

text \<open>Inserting several keys sets the union of their positions.\<close>

lemma Add_each_wf:
  assumes "bloom_wf bf"
  shows "\<exists>bf'. for_each (\<lambda>k f. Add f k) ks bf = Return bf' \<and> bloom_wf bf'
    \<and> bits_of bf' = bits_of bf \<union> (\<Union>k \<in> set ks. set (positions (numBits bf) (numHashes bf) k))
    \<and> numBits bf' = numBits bf \<and> numHashes bf' = numHashes bf"
  using assms
proof (induction ks arbitrary: bf)
  case (Cons k ks)
  obtain bf1 where bf1: "Add bf k = Return bf1" "bloom_wf bf1"
      "bits_of bf1 = bits_of bf \<union> set (positions (numBits bf) (numHashes bf) k)"
      "numBits bf1 = numBits bf" "numHashes bf1 = numHashes bf"
    using Add_wf [OF Cons.prems] by blast
  then show ?case using Cons.IH [OF bf1(2)] by auto
qed simp

section \<open>Merging\<close>

definition or_bytes :: "bytes \<Rightarrow> bytes \<Rightarrow> bytes" where
  "or_bytes xs ys = map2 (OR) xs ys"

lemma merge_loop:
  assumes "length ys = length arr" and "n \<le> length arr"
  shows "for_each (\<lambda>i arr. bind_outcome (slice_get arr i) (\<lambda>x. bind_outcome (slice_get ys i) (\<lambda>y.
           slice_set arr i (x OR y)))) [0..int n - 1] arr
     = (Return (or_bytes (take n arr) (take n ys) @ drop n arr) :: (error, bytes) outcome)"
  using assms(2)
proof (induction n)
  case 0
  then show ?case by (simp add: or_bytes_def)
next
  case (Suc n)
  have up: "[0..int (Suc n) - 1] = [0..int n - 1] @ [int n]"
    using upto_rec2 [of 0 "int n"] by simp
  have l: "length (or_bytes (take n arr) (take n ys)) = n"
    using Suc.prems assms(1) by (simp add: or_bytes_def)
  show ?case
    using Suc assms(1) l unfolding up for_each_append
    by (simp add: slice_get_def slice_set_def nth_append list_update_append
        take_Suc_conv_app_nth or_bytes_def Cons_nth_drop_Suc [symmetric])
qed

lemma Merge_wf:
  assumes "bloom_wf bf" and "bloom_wf other" and "numBits bf = numBits other"
  shows "\<exists>bf'. Merge bf other = Return bf' \<and> bloom_wf bf' \<and> bits_of bf' = bits_of bf \<union> bits_of other
    \<and> numBits bf' = numBits bf \<and> numHashes bf' = numHashes bf \<and> itemCount bf' = itemCount bf"
proof -
  let ?arr = "or_bytes (bitArray bf) (bitArray other)"
  have len: "length (bitArray other) = length (bitArray bf)"
    using assms by (simp add: bloom_wf_def)
  have eq: "Merge bf other = Return (bf\<lparr>bitArray := ?arr\<rparr>)"
    using assms(3) merge_loop [OF len, of "length (bitArray bf)"] len by (simp add: Merge_def)
  have "bit (?arr ! j) k \<longleftrightarrow> bit (bitArray bf ! j) k \<or> bit (bitArray other ! j) k"
    if "j < length (bitArray bf)" for j k
    using that len by (simp add: or_bytes_def bit_or_iff)
  then have "bits_of (bf\<lparr>bitArray := ?arr\<rparr>) = bits_of bf \<union> bits_of other"
    using byte_in_range [OF assms(1)] assms(3) by (auto simp: bits_of_def)
  moreover have "bloom_wf (bf\<lparr>bitArray := ?arr\<rparr>)"
    using assms(1) len by (simp add: bloom_wf_def or_bytes_def)
  ultimately show ?thesis using eq by simp
qed

section \<open>Results\<close>

text \<open>A filter of \<open>8 * n\<close> clear bits and \<open>k\<close> hash functions, for concrete runs.\<close>

definition clear_filter :: "nat \<Rightarrow> int \<Rightarrow> bloom_filter" where
  "clear_filter n k = \<lparr>bitArray = replicate n 0, numBits = 8 * int n, numHashes = k, itemCount = 0\<rparr>"

lemma clear_filter_wf: "0 < n \<Longrightarrow> n < 268435456 \<Longrightarrow> bloom_wf (clear_filter n k)"
  by (simp add: bloom_wf_def clear_filter_def)

lemma bits_of_fresh: "\<forall>b \<in> set (bitArray bf). b = 0 \<Longrightarrow> bloom_wf bf \<Longrightarrow> bits_of bf = {}"
proof -
  assume z: "\<forall>b \<in> set (bitArray bf). b = 0" and wf: "bloom_wf bf"
  have "bitArray bf ! (p div 8) = 0" if "p < nat (numBits bf)" for p
    using z nth_mem [OF byte_in_range [OF wf that]] by blast
  then show ?thesis by (auto simp: bits_of_def)
qed

lemma clear_filter_bits: "bits_of (clear_filter n k) = {}"
  by (auto simp: bits_of_def clear_filter_def)

text \<open>
  C27: No false negatives. Inserting any sequence of keys into a well-formed filter never
  panics, and afterwards every inserted key, and every key found before, is found.
\<close>

theorem bloom_no_false_negatives:
  assumes "bloom_wf bf"
  shows "\<exists>bf'. for_each (\<lambda>k f. Add f k) ks bf = Return bf' \<and> bloom_wf bf'
    \<and> (\<forall>k \<in> set ks. MightContain bf' k = Return True)
    \<and> (\<forall>k. MightContain bf k = Return True \<longrightarrow> MightContain bf' k = Return True)"
  using assms by (rule bloom.add_each)

theorem bloom_no_false_negatives_witness:
  "\<exists>bf'. for_each (\<lambda>k f. Add f k) [''a'', ''b''] (clear_filter 2 3) = Return bf'
    \<and> MightContain bf' ''a'' = Return True \<and> MightContain bf' ''b'' = Return True"
  using bloom_no_false_negatives [OF clear_filter_wf [of 2 3], of "[''a'', ''b'']"] by auto

text \<open>
  Exactness of the false positives. After inserting keys into a filter with no bit set, a
  key is reported as possibly present exactly when each of its positions is a position of
  some inserted key.
\<close>

lemma bloom_positive_iff_covered:
  assumes "bloom_wf bf" and "\<forall>b \<in> set (bitArray bf). b = 0"
    and "for_each (\<lambda>k f. Add f k) ks bf = Return bf'"
  shows "MightContain bf' key = Return
    (set (positions (numBits bf) (numHashes bf) key)
       \<subseteq> (\<Union>k \<in> set ks. set (positions (numBits bf) (numHashes bf) k)))"
  using Add_each_wf [OF assms(1), of ks] assms(3) bits_of_fresh [OF assms(2,1)]
  by (auto simp: MightContain_wf)

text \<open>
  \<open>Merge\<close> is the union. On well-formed filters it is refused exactly when the numbers of
  bits differ; otherwise it does not panic, keeps the filter well-formed, and the bits of
  the result are the union of the bits of both.
\<close>

lemma merge_is_union:
  assumes "bloom_wf bf" and "bloom_wf other"
  shows "if numBits bf = numBits other
    then \<exists>bf'. Merge bf other = Return bf' \<and> bloom_wf bf' \<and> bits_of bf' = bits_of bf \<union> bits_of other
           \<and> numHashes bf' = numHashes bf \<and> itemCount bf' = itemCount bf
    else Merge bf other = Fail ErrIncompatibleFilters"
  using Merge_wf [OF assms] by (auto simp: Merge_def)

text \<open>
  \<open>Merge\<close> accepts filters with different numbers of hash functions, and the union then has
  false negatives: a key that the other filter was given, and finds, is reported as
  definitely absent by the merged filter.
\<close>

lemma merge_loses_keys_of_other_hash_count:
  "\<exists>bf other other' merged. bloom_wf bf \<and> bloom_wf other \<and> numHashes bf \<noteq> numHashes other
    \<and> Add other ''a'' = Return other' \<and> MightContain other' ''a'' = Return True
    \<and> Merge bf other' = Return merged \<and> MightContain merged ''a'' = Return False"
proof -
  let ?bf = "clear_filter 2 7" and ?other = "clear_filter 2 1"
  have wf: "bloom_wf ?bf" "bloom_wf ?other" by (simp_all add: clear_filter_wf)
  obtain o' where o': "Add ?other ''a'' = Return o'" "bloom_wf o'" "numBits o' = 16" "numHashes o' = 1"
      "bits_of o' = set (positions 16 1 ''a'')"
    using Add_wf [OF wf(2), of "''a''"] by (auto simp: clear_filter_bits) (simp add: clear_filter_def)
  have "numBits ?bf = numBits o'" using o'(3) by (simp add: clear_filter_def)
  then obtain m where m: "Merge ?bf o' = Return m" "bloom_wf m" "bits_of m = set (positions 16 1 ''a'')"
      "numBits m = 16" "numHashes m = 7"
    using Merge_wf [OF wf(1) o'(2)] o' by (auto simp: clear_filter_bits) (simp add: clear_filter_def)
  have "\<not> set (positions 16 7 ''a'') \<subseteq> set (positions 16 1 ''a'')" by code_simp
  then have "MightContain m ''a'' = Return False" using m by (simp add: MightContain_wf)
  moreover have "MightContain o' ''a'' = Return True" using o' by (simp add: MightContain_wf)
  moreover have "numHashes ?bf \<noteq> numHashes ?other" by (simp add: clear_filter_def)
  ultimately show ?thesis using wf o' m by blast
qed

text \<open>
  A filter survives the network. Deserializing the serialized filter gives it back when
  its three counters fit in 32 bits, so the receiver's membership tests have the same
  answers as the sender's.
\<close>

lemma bloom_serialization_roundtrip:
  assumes "numBits bf \<in> {-2147483648..2147483647}" and "numHashes bf \<in> {-2147483648..2147483647}"
    and "itemCount bf \<in> {-2147483648..2147483647}"
  shows "(case Serialize bf of (arr, nb, nh, ic) \<Rightarrow> DeserializeBloomFilter arr nb nh ic) = bf"
proof -
  have "sint (word_of_int i :: i32) = i" if "i \<in> {-2147483648..2147483647}" for i
    using that by (simp add: signed_of_int signed_take_bit_int_eq_self)
  then show ?thesis using assms by (simp add: Serialize_def DeserializeBloomFilter_def)
qed



end
