(* ===== verification/Merkle.thy ===== *)
theory Merkle
  imports Go_Hash
begin

text \<open>
  Hash verification (\<open>internal/storage/hash.go\<close>): SHA-256 digests of chunks, the check of a
  chunk against its digest, and the Merkle tree over the digests, built level by level with
  an odd node promoted. The tree is proved to be a balanced binding of the digest list, as
  far as a list of known length goes.
\<close>

section \<open>Definitions\<close>

definition ComputeHash :: "bytes \<Rightarrow> string" where
  "ComputeHash d = hex_encode (sha256 d)"

text \<open>An error value or \<open>nil\<close>.\<close>

definition VerifyChunk :: "bytes \<Rightarrow> string \<Rightarrow> error option" where
  "VerifyChunk d expectedHash =
     (let actualHash = ComputeHash d
      in if actualHash \<noteq> expectedHash
         then Some (''hash mismatch: expected '' @ expectedHash @ '', got '' @ actualHash)
         else None)"

datatype merkle_node = MerkleNode (Hash: string) (Left: "merkle_node option") (Right: "merkle_node option")

text \<open>One pass of the inner loop: pairs are combined, an odd last node is promoted.\<close>

fun next_level :: "merkle_node list \<Rightarrow> merkle_node list" where
  "next_level [] = []"
| "next_level [n] = [n]"
| "next_level (a # b # ns) =
     MerkleNode (ComputeHash (str_bytes (Hash a @ Hash b))) (Some a) (Some b) # next_level ns"

lemma length_next_level [simp]: "length (next_level ns) = (length ns + 1) div 2"
  by (induction ns rule: next_level.induct) auto

function build_levels :: "merkle_node list \<Rightarrow> merkle_node list" where
  "build_levels nodes = (if length nodes > 1 then build_levels (next_level nodes) else nodes)"
  by pat_completeness auto
termination
  by (relation "measure length") auto

declare build_levels.simps [simp del]

definition BuildMerkleTree :: "string list \<Rightarrow> merkle_node option" where
  "BuildMerkleTree chunkHashes =
     (if length chunkHashes = 0 then None
      else Some (hd (build_levels (map (\<lambda>h. MerkleNode h None None) chunkHashes))))"

definition RootHash :: "string list \<Rightarrow> string" where
  "RootHash chunkHashes =
     (case BuildMerkleTree chunkHashes of None \<Rightarrow> [] | Some tree \<Rightarrow> Hash tree)"

definition VerifyFileIntegrity :: "string list \<Rightarrow> string \<Rightarrow> bool" where
  "VerifyFileIntegrity chunkHashes expectedRoot = (RootHash chunkHashes = expectedRoot)"

section \<open>The shape of the tree\<close>

lemma length_ComputeHash [simp]: "length (ComputeHash d) = 64"
  by (simp add: ComputeHash_def)

fun leaves :: "merkle_node \<Rightarrow> string list" where
  "leaves (MerkleNode h None None) = [h]"
| "leaves (MerkleNode h (Some a) None) = leaves a"
| "leaves (MerkleNode h None (Some b)) = leaves b"
| "leaves (MerkleNode h (Some a) (Some b)) = leaves a @ leaves b"

text \<open>Every inner node has two children and carries the digest of their two digests.\<close>

fun well_hashed :: "merkle_node \<Rightarrow> bool" where
  "well_hashed (MerkleNode h None None) = True"
| "well_hashed (MerkleNode h (Some a) (Some b)) =
     (h = ComputeHash (str_bytes (Hash a @ Hash b)) \<and> well_hashed a \<and> well_hashed b)"
| "well_hashed (MerkleNode h _ _) = False"

fun tree_height :: "merkle_node \<Rightarrow> nat" where
  "tree_height (MerkleNode h None None) = 0"
| "tree_height (MerkleNode h (Some a) None) = Suc (tree_height a)"
| "tree_height (MerkleNode h None (Some b)) = Suc (tree_height b)"
| "tree_height (MerkleNode h (Some a) (Some b)) = Suc (max (tree_height a) (tree_height b))"

lemma next_level_leaves: "concat (map leaves (next_level ns)) = concat (map leaves ns)"
  by (induction ns rule: next_level.induct) auto

lemma next_level_well_hashed:
  "\<forall>n \<in> set ns. well_hashed n \<Longrightarrow> \<forall>n \<in> set (next_level ns). well_hashed n"
  by (induction ns rule: next_level.induct) auto

lemma next_level_height:
  "\<forall>n \<in> set ns. tree_height n \<le> k \<Longrightarrow> \<forall>n \<in> set (next_level ns). tree_height n \<le> Suc k"
  by (induction ns rule: next_level.induct) auto

text \<open>Induction over the levels, for properties that a pass keeps.\<close>

lemma build_levels_induct:
  assumes "P nodes" and "\<And>ns. P ns \<Longrightarrow> P (next_level ns)" and "nodes \<noteq> []"
  shows "\<exists>n. build_levels nodes = [n] \<and> P [n]"
  using assms(1,3)
proof (induction nodes rule: build_levels.induct)
  case (1 nodes)
  show ?case
  proof (cases "length nodes > 1")
    case True
    then have "next_level nodes \<noteq> []" by (cases nodes rule: next_level.cases) auto
    then show ?thesis
      using True "1.IH" [OF True assms(2) [OF "1.prems"(1)]] by (simp add: build_levels.simps [of nodes])
  next
    case False
    then obtain n where "nodes = [n]" using "1.prems"(2) by (cases nodes) auto
    then show ?thesis using "1.prems"(1) by (simp add: build_levels.simps [of "[n]"])
  qed
qed

lemma build_levels_height:
  assumes "nodes \<noteq> []" and "\<forall>n \<in> set nodes. tree_height n \<le> k" and "length nodes \<le> 2 ^ d"
  shows "tree_height (hd (build_levels nodes)) \<le> k + d"
  using assms
proof (induction d arbitrary: nodes k)
  case 0
  then obtain n where "nodes = [n]" by (cases nodes) auto
  with 0 show ?case by (simp add: build_levels.simps [of "[n]"])
next
  case (Suc d)
  show ?case
  proof (cases "length nodes > 1")
    case True
    then have "next_level nodes \<noteq> []" by (cases nodes rule: next_level.cases) auto
    moreover have "length (next_level nodes) \<le> 2 ^ d" using Suc.prems(3) by simp
    ultimately have "tree_height (hd (build_levels (next_level nodes))) \<le> Suc k + d"
      using Suc.IH next_level_height [OF Suc.prems(2)] by blast
    then show ?thesis using True by (simp add: build_levels.simps [of nodes])
  next
    case False
    then obtain n where "nodes = [n]" using Suc.prems(1) by (cases nodes) auto
    with Suc.prems(2) show ?thesis by (simp add: build_levels.simps [of "[n]"])
  qed
qed

section \<open>Levels as lists of digests\<close>

fun hash_level :: "string list \<Rightarrow> string list" where
  "hash_level [] = []"
| "hash_level [h] = [h]"
| "hash_level (a # b # hs) = ComputeHash (str_bytes (a @ b)) # hash_level hs"

text \<open>The inputs that a level, and a whole build, hands to \<open>ComputeHash\<close>.\<close>

fun level_inputs :: "string list \<Rightarrow> bytes list" where
  "level_inputs (a # b # hs) = str_bytes (a @ b) # level_inputs hs"
| "level_inputs _ = []"

lemma length_hash_level [simp]: "length (hash_level hs) = (length hs + 1) div 2"
  by (induction hs rule: hash_level.induct) auto

function merkle_inputs :: "string list \<Rightarrow> bytes list" where
  "merkle_inputs hs = (if length hs > 1 then level_inputs hs @ merkle_inputs (hash_level hs) else [])"
  by pat_completeness auto
termination
  by (relation "measure length") auto

function root_of :: "string list \<Rightarrow> string list" where
  "root_of hs = (if length hs > 1 then root_of (hash_level hs) else hs)"
  by pat_completeness auto
termination
  by (relation "measure length") auto

declare merkle_inputs.simps [simp del] root_of.simps [simp del]

lemma map_Hash_next_level: "map Hash (next_level ns) = hash_level (map Hash ns)"
  by (induction ns rule: next_level.induct) auto

lemma map_Hash_build_levels: "map Hash (build_levels ns) = root_of (map Hash ns)"
proof (induction ns rule: build_levels.induct)
  case (1 nodes)
  then show ?case
    by (simp add: build_levels.simps [of nodes] root_of.simps [of "map Hash nodes"] map_Hash_next_level)
qed

lemma RootHash_root_of: "hs \<noteq> [] \<Longrightarrow> root_of hs = [RootHash hs]"
proof -
  assume ne: "hs \<noteq> []"
  let ?ns = "map (\<lambda>h. MerkleNode h None None) hs"
  obtain n where n: "build_levels ?ns = [n]"
    using build_levels_induct [of "\<lambda>_. True" ?ns] ne by auto
  have "root_of hs = map Hash (build_levels ?ns)"
    by (simp add: map_Hash_build_levels comp_def)
  then show ?thesis using n ne by (simp add: RootHash_def BuildMerkleTree_def)
qed

lemma RootHash_level: "1 < length hs \<Longrightarrow> RootHash hs = RootHash (hash_level hs)"
proof -
  assume l: "1 < length hs"
  then have "hs \<noteq> []" "hash_level hs \<noteq> []" by (auto simp: length_0_conv [symmetric] simp del: length_0_conv)
  then have "[RootHash hs] = [RootHash (hash_level hs)]"
    using l by (metis RootHash_root_of root_of.simps)
  then show ?thesis by simp
qed

lemma hash_level_lengths:
  "\<forall>h \<in> set hs. length h = 64 \<Longrightarrow> \<forall>h \<in> set (hash_level hs). length h = 64"
  by (induction hs rule: hash_level.induct) auto

text \<open>Two levels with the same digests agree, or two of their inputs collide.\<close>

lemma hash_level_binding:
  assumes "hash_level hs = hash_level ks" and "length hs = length ks"
    and "\<forall>h \<in> set hs \<union> set ks. length h = 64"
  shows "hs = ks \<or> (\<exists>x \<in> set (level_inputs hs). \<exists>y \<in> set (level_inputs ks).
      x \<noteq> y \<and> ComputeHash x = ComputeHash y)"
  using assms
proof (induction hs arbitrary: ks rule: hash_level.induct)
  case (3 a b hs)
  then obtain c d ls where ks: "ks = c # d # ls" by (cases ks; cases "tl ks") auto
  show ?case
  proof (cases "a @ b = c @ d")
    case True
    then have "a = c \<and> b = d" using "3.prems"(3) ks by simp
    then show ?thesis using "3.IH" [of ls] "3.prems" ks by auto
  next
    case False
    then show ?thesis using "3.prems"(1) ks by auto
  qed
next
  case (2 h)
  then show ?case by (cases ks rule: hash_level.cases) auto
qed simp

lemma root_binding:
  assumes "RootHash hs = RootHash ks" and "length hs = length ks"
    and "\<forall>h \<in> set hs \<union> set ks. length h = 64"
  shows "hs = ks \<or> (\<exists>x \<in> set (merkle_inputs hs). \<exists>y \<in> set (merkle_inputs ks).
      x \<noteq> y \<and> ComputeHash x = ComputeHash y)"
  using assms
proof (induction hs arbitrary: ks rule: merkle_inputs.induct)
  case (1 hs)
  show ?case
  proof (cases "length hs > 1")
    case True
    then have k: "length ks > 1" using "1.prems"(2) by simp
    have "RootHash (hash_level hs) = RootHash (hash_level ks)"
      using "1.prems"(1) RootHash_level True k by simp
    moreover have "\<forall>h \<in> set (hash_level hs) \<union> set (hash_level ks). length h = 64"
      using "1.prems"(3) hash_level_lengths by blast
    ultimately have "hash_level hs = hash_level ks \<or>
        (\<exists>x \<in> set (merkle_inputs (hash_level hs)). \<exists>y \<in> set (merkle_inputs (hash_level ks)).
           x \<noteq> y \<and> ComputeHash x = ComputeHash y)"
      using "1.IH" [OF True] "1.prems"(2) by simp
    then show ?thesis
      using hash_level_binding [OF _ "1.prems"(2,3)] True k
      by (auto simp: merkle_inputs.simps [of hs] merkle_inputs.simps [of ks])
  next
    case False
    have single: "RootHash [h] = h" for h using RootHash_root_of [of "[h]"] by (simp add: root_of.simps)
    show ?thesis
    proof (cases hs)
      case (Cons h t)
      then obtain k where "hs = [h]" "ks = [k]" using False "1.prems"(2) by (cases ks) auto
      then show ?thesis using "1.prems"(1) single by simp
    qed (use "1.prems"(2) in simp)
  qed
qed

section \<open>The tree\<close>

lemma leaves_singletons: "concat (map (leaves \<circ> (\<lambda>h. MerkleNode h None None)) hs) = hs"
  by (induction hs) auto

lemma BuildMerkleTree_shape:
  assumes "hs \<noteq> []"
  shows "\<exists>n. BuildMerkleTree hs = Some n \<and> leaves n = hs \<and> well_hashed n"
proof -
  let ?ns = "map (\<lambda>h. MerkleNode h None None) hs"
  let ?P = "\<lambda>ns. concat (map leaves ns) = hs \<and> (\<forall>n \<in> set ns. well_hashed n)"
  have "?P ?ns" by (auto simp: leaves_singletons)
  moreover have "?P ns \<Longrightarrow> ?P (next_level ns)" for ns
    using next_level_leaves [of ns] next_level_well_hashed [of ns] by simp
  ultimately have "\<exists>n. build_levels ?ns = [n] \<and> ?P [n]"
    using build_levels_induct [of ?P ?ns] assms by blast
  then show ?thesis using assms by (auto simp: BuildMerkleTree_def)
qed

lemma RootHash_single: "RootHash [h] = h"
  using RootHash_root_of [of "[h]"] by (simp add: root_of.simps)

lemma RootHash_length:
  "hs \<noteq> [] \<Longrightarrow> \<forall>h \<in> set hs. length h = 64 \<Longrightarrow> length (RootHash hs) = 64"
proof (induction hs rule: root_of.induct)
  case (1 hs)
  show ?case
  proof (cases "length hs > 1")
    case True
    then have "hash_level hs \<noteq> []" by (auto simp: length_0_conv [symmetric] simp del: length_0_conv)
    then show ?thesis
      using "1.IH" [OF True] hash_level_lengths [OF "1.prems"(2)] RootHash_level [OF True] by simp
  next
    case False
    then obtain h where "hs = [h]" using "1.prems"(1) by (cases hs) auto
    then show ?thesis using "1.prems"(2) by (simp add: RootHash_single)
  qed
qed

section \<open>Results\<close>

text \<open>
  A chunk passes verification against the digest of another exactly when the two have the
  same SHA-256 digest; in particular a chunk always passes against its own digest.
\<close>

lemma VerifyChunk_iff:
  "VerifyChunk d (ComputeHash d') = None \<longleftrightarrow> sha256 d = sha256 d'"
  by (simp add: VerifyChunk_def ComputeHash_def)

text \<open>
  \<open>BuildMerkleTree\<close> of a non-empty list returns a tree whose leaves are the chunk digests
  in order, in which every inner node has two children and is the digest of their digests
  (odd nodes are promoted, never duplicated), and whose height is at most the logarithm of
  the number of chunks.
\<close>

lemma merkle_tree_structure:
  assumes "hs \<noteq> []"
  shows "\<exists>n. BuildMerkleTree hs = Some n \<and> leaves n = hs \<and> well_hashed n
    \<and> (\<forall>d. length hs \<le> 2 ^ d \<longrightarrow> tree_height n \<le> d)"
proof -
  have "tree_height (the (BuildMerkleTree hs)) \<le> d" if "length hs \<le> 2 ^ d" for d
    using build_levels_height [of "map (\<lambda>h. MerkleNode h None None) hs" 0 d] assms that
    by (simp add: BuildMerkleTree_def)
  then show ?thesis using BuildMerkleTree_shape [OF assms] by auto
qed

text \<open>
  C31: The Merkle root binds the chunk digests. If two lists of the same number of 64-character
  digests have the same root, they are equal, or two different inputs that the two builds
  hand to the hash function collide; so \<open>VerifyFileIntegrity\<close> detects every change of a
  chunk digest short of a SHA-256 collision among those inputs.
\<close>

theorem merkle_root_binding:
  assumes "VerifyFileIntegrity ks (RootHash hs)" and "length hs = length ks"
    and "\<forall>h \<in> set hs \<union> set ks. length h = 64"
  shows "hs = ks \<or> (\<exists>x \<in> set (merkle_inputs hs). \<exists>y \<in> set (merkle_inputs ks).
      x \<noteq> y \<and> ComputeHash x = ComputeHash y)"
  using assms root_binding by (simp add: VerifyFileIntegrity_def)

theorem merkle_root_binding_witness:
  "[ComputeHash [1], ComputeHash [2]] = [ComputeHash [1], ComputeHash [2]] \<or>
   (\<exists>x \<in> set (merkle_inputs [ComputeHash [1], ComputeHash [2]]).
    \<exists>y \<in> set (merkle_inputs [ComputeHash [1], ComputeHash [2]]). x \<noteq> y \<and> ComputeHash x = ComputeHash y)"
  by (rule merkle_root_binding) (simp_all add: VerifyFileIntegrity_def)


end
