(* ===== verification/Go_Path.thy ===== *)
theory Go_Path
  imports Go_Maps
begin

text \<open>
  \<open>path/filepath\<close> of Go's standard library, as on Unix: \<open>Clean\<close> and \<open>Join\<close>. A path is read
  as a rooted flag and a stack of components, on which empty components and \<open>.\<close> do nothing
  and \<open>..\<close> removes the component before it.
\<close>

section \<open>Splitting and joining\<close>

fun split_slash :: "string \<Rightarrow> string list" where
  "split_slash [] = [[]]"
| "split_slash (c # cs) =
     (if c = CHR ''/'' then [] # split_slash cs
      else case split_slash cs of [] \<Rightarrow> [[c]] | w # ws \<Rightarrow> (c # w) # ws)"

fun join_slash :: "string list \<Rightarrow> string" where
  "join_slash [] = []"
| "join_slash [w] = w"
| "join_slash (w # v # ws) = w @ ''/'' @ join_slash (v # ws)"

lemma split_slash_nonempty [simp]: "split_slash s \<noteq> []"
  by (induction s) (auto split: list.splits)

lemma split_slash_append: "split_slash (p @ ''/'' @ q) = split_slash p @ split_slash q"
proof (induction p)
  case (Cons c p)
  then show ?case by (cases "split_slash p") auto
qed simp

lemma split_slash_plain: "CHR ''/'' \<notin> set w \<Longrightarrow> split_slash w = [w]"
  by (induction w) auto

lemma split_join_slash:
  "ws \<noteq> [] \<Longrightarrow> \<forall>w \<in> set ws. CHR ''/'' \<notin> set w \<Longrightarrow> split_slash (join_slash ws) = ws"
proof (induction ws rule: join_slash.induct)
  case (3 w v ws)
  then show ?case
    using split_slash_append [of w "join_slash (v # ws)"] by (simp add: split_slash_plain)
qed (simp_all add: split_slash_plain)

lemma split_slash_no_slash: "w \<in> set (split_slash s) \<Longrightarrow> CHR ''/'' \<notin> set w"
  by (induction s arbitrary: w) (auto split: list.splits if_splits)

section \<open>Clean\<close>

definition rooted :: "string \<Rightarrow> bool" where
  "rooted p = (case p of [] \<Rightarrow> False | c # cs \<Rightarrow> c = CHR ''/'')"

text \<open>The stack holds the components kept so far, the last one first.\<close>

definition clean_step :: "bool \<Rightarrow> string list \<Rightarrow> string \<Rightarrow> string list" where
  "clean_step r st w =
     (if w = [] \<or> w = ''.'' then st
      else if w = ''..'' then
        (case st of
           [] \<Rightarrow> if r then [] else [''..'']
         | v # vs \<Rightarrow> if v = ''..'' then ''..'' # st else vs)
      else w # st)"

definition clean_stack :: "string \<Rightarrow> string list" where
  "clean_stack p = foldl (clean_step (rooted p)) [] (split_slash p)"

definition render_path :: "bool \<Rightarrow> string list \<Rightarrow> string" where
  "render_path r st =
     (if r then ''/'' @ join_slash (rev st) else if st = [] then ''.'' else join_slash (rev st))"

definition path_Clean :: "string \<Rightarrow> string" where
  "path_Clean p = render_path (rooted p) (clean_stack p)"

text \<open>\<open>Join\<close> ignores empty elements before the first non-empty one.\<close>

definition path_Join :: "string list \<Rightarrow> string" where
  "path_Join elems =
     (case dropWhile (\<lambda>e. e = []) elems of [] \<Rightarrow> [] | es \<Rightarrow> path_Clean (join_slash es))"

section \<open>Cleaning is a normal form\<close>

definition kept_stack :: "bool \<Rightarrow> string list \<Rightarrow> bool" where
  "kept_stack r st \<longleftrightarrow> (\<forall>w \<in> set st. w \<noteq> [] \<and> w \<noteq> ''.'' \<and> CHR ''/'' \<notin> set w)
     \<and> (\<exists>us ds. st = us @ ds \<and> ''..'' \<notin> set us \<and> set ds \<subseteq> {''..''} \<and> (r \<longrightarrow> ds = []))"

lemma kept_stack_step:
  assumes "kept_stack r st" and "CHR ''/'' \<notin> set w"
  shows "kept_stack r (clean_step r st w)"
proof -
  obtain us ds where st: "st = us @ ds" "''..'' \<notin> set us" "set ds \<subseteq> {''..''}" "r \<longrightarrow> ds = []"
    using assms(1) unfolding kept_stack_def by blast
  have words: "\<forall>w \<in> set st. w \<noteq> [] \<and> w \<noteq> ''.'' \<and> CHR ''/'' \<notin> set w"
    using assms(1) by (simp add: kept_stack_def)
  consider "w = [] \<or> w = ''.''" | "w = ''..''" | "w \<noteq> []" "w \<noteq> ''.''" "w \<noteq> ''..''" by blast
  then show ?thesis
  proof cases
    case 1
    then show ?thesis using assms(1) by (auto simp: clean_step_def)
  next
    case 2
    show ?thesis
    proof (cases us)
      case Nil
      show ?thesis
      proof (cases ds)
        case Nil
        then show ?thesis using \<open>us = []\<close> st 2
          by (cases r) (auto simp: clean_step_def kept_stack_def intro: exI [of _ "[]"])
      next
        case (Cons d ds')
        then have "clean_step r st w = ''..'' # ds" using \<open>us = []\<close> st 2 by (auto simp: clean_step_def)
        moreover have "\<not> r" using Cons st(4) by auto
        ultimately show ?thesis
          using st \<open>us = []\<close> words unfolding kept_stack_def
          by (intro conjI exI [of _ "[]"] exI [of _ "''..'' # ds"]) auto
      qed
    next
      case (Cons u us')
      then have "clean_step r st w = us' @ ds" using st 2 by (auto simp: clean_step_def)
      then show ?thesis using Cons st words unfolding kept_stack_def by auto
    qed
  next
    case 3
    then have "clean_step r st w = w # us @ ds" using st(1) by (simp add: clean_step_def)
    then show ?thesis
      using 3 st words assms(2) unfolding kept_stack_def
      by (intro conjI exI [of _ "w # us"] exI [of _ ds]) (simp_all add: eq_commute [of "''..''"])
  qed
qed

lemma kept_stack_foldl:
  "kept_stack r st \<Longrightarrow> \<forall>w \<in> set ws. CHR ''/'' \<notin> set w \<Longrightarrow> kept_stack r (foldl (clean_step r) st ws)"
  by (induction ws arbitrary: st) (auto simp: kept_stack_step)

lemma kept_stack_empty: "kept_stack r []"
  by (simp add: kept_stack_def)

lemma kept_clean_stack: "kept_stack (rooted p) (clean_stack p)"
  unfolding clean_stack_def
  by (rule kept_stack_foldl) (auto simp: kept_stack_empty dest: split_slash_no_slash)

text \<open>Replaying the components of a normal form rebuilds it.\<close>

lemma replay_dots: "set ds \<subseteq> {''..''} \<Longrightarrow> \<not> r \<Longrightarrow> foldl (clean_step r) [] (rev ds) = ds"
proof (induction ds)
  case (Cons d ds)
  then show ?case by (cases ds) (auto simp: clean_step_def)
qed simp

lemma replay_words:
  "\<forall>w \<in> set us. w \<noteq> [] \<and> w \<noteq> ''.'' \<and> w \<noteq> ''..'' \<Longrightarrow> foldl (clean_step r) st (rev us) = us @ st"
  by (induction us) (auto simp: clean_step_def)

lemma replay: "kept_stack r st \<Longrightarrow> foldl (clean_step r) [] (rev st) = st"
proof -
  assume k: "kept_stack r st"
  then obtain us ds where st: "st = us @ ds" "''..'' \<notin> set us" "set ds \<subseteq> {''..''}" "r \<longrightarrow> ds = []"
    unfolding kept_stack_def by blast
  have "foldl (clean_step r) [] (rev ds) = ds"
    using st(3,4) replay_dots [of ds r] by (cases r) auto
  then show ?thesis
    using k st replay_words [of us r ds] by (auto simp: kept_stack_def)
qed

lemma rooted_render: "kept_stack r st \<Longrightarrow> rooted (render_path r st) = r"
proof (cases "r \<or> st = []")
  case False
  assume k: "kept_stack r st"
  then obtain w ws where ws: "rev st = w # ws" using False by (cases "rev st") auto
  then have "w \<in> set st" by (metis list.set_intros(1) set_rev)
  then have "w \<noteq> []" "CHR ''/'' \<notin> set w" using k by (auto simp: kept_stack_def)
  then show ?thesis using False ws by (cases w; cases ws) (auto simp: render_path_def rooted_def)
qed (auto simp: render_path_def rooted_def)

lemma split_render:
  assumes "kept_stack r st"
  shows "foldl (clean_step r) [] (split_slash (render_path r st)) = st"
proof (cases "st = []")
  case True
  then show ?thesis by (simp add: render_path_def clean_step_def)
next
  case False
  then have s: "split_slash (join_slash (rev st)) = rev st"
    using assms by (intro split_join_slash) (auto simp: kept_stack_def)
  show ?thesis
    using False s replay [OF assms] by (cases r) (simp_all add: render_path_def clean_step_def)
qed

lemma clean_stack_Clean [simp]: "clean_stack (path_Clean p) = clean_stack p"
  by (simp add: path_Clean_def clean_stack_def [of "render_path _ _"] rooted_render split_render
      kept_clean_stack)

lemma rooted_Clean [simp]: "rooted (path_Clean p) = rooted p"
  by (simp add: path_Clean_def rooted_render kept_clean_stack)

lemma rooted_append: "p \<noteq> [] \<Longrightarrow> rooted (p @ q) = rooted p"
  by (cases p) (auto simp: rooted_def)

lemma Clean_nonempty [simp]: "path_Clean p \<noteq> []"
proof
  assume "path_Clean p = []"
  then have "\<not> rooted p" "clean_stack p \<noteq> []" "join_slash (rev (clean_stack p)) = []"
    by (auto simp: path_Clean_def render_path_def split: if_splits)
  moreover from this have "split_slash (join_slash (rev (clean_stack p))) = rev (clean_stack p)"
    using kept_clean_stack [of p] by (intro split_join_slash) (auto simp: kept_stack_def)
  ultimately have "clean_stack p = [[]]" by (metis rev_singleton_conv split_slash.simps(1))
  then show False using kept_clean_stack [of p] by (simp add: kept_stack_def)
qed

lemma clean_stack_append:
  "p \<noteq> [] \<Longrightarrow> clean_stack (p @ ''/'' @ q) = foldl (clean_step (rooted p)) (clean_stack p) (split_slash q)"
  using rooted_append [of p "''/'' @ q"] split_slash_append [of p q] by (simp add: clean_stack_def)

lemma Clean_append_Clean:
  "p \<noteq> [] \<Longrightarrow> path_Clean (path_Clean p @ ''/'' @ q) = path_Clean (p @ ''/'' @ q)"
  unfolding path_Clean_def [of "path_Clean p @ _"] path_Clean_def [of "p @ _"]
  by (simp only: clean_stack_append Clean_nonempty rooted_append rooted_Clean clean_stack_Clean not_False_eq_True)

text \<open>An element that is a plain file name: not empty, not a dot name, without a slash.\<close>

definition plain_name :: "string \<Rightarrow> bool" where
  "plain_name w \<longleftrightarrow> w \<noteq> [] \<and> w \<noteq> ''.'' \<and> w \<noteq> ''..'' \<and> CHR ''/'' \<notin> set w"

lemma clean_step_plain: "plain_name w \<Longrightarrow> clean_step r st w = w # st"
  by (simp add: plain_name_def clean_step_def)

lemma kept_stack_plain: "kept_stack r st \<Longrightarrow> plain_name w \<Longrightarrow> kept_stack r (w # st)"
  using kept_stack_step [of r st w] by (simp add: clean_step_plain) (simp add: plain_name_def)

lemma render_inject:
  "kept_stack r st \<Longrightarrow> kept_stack r st' \<Longrightarrow> render_path r st = render_path r st' \<longleftrightarrow> st = st'"
  by (metis split_render)

end
