(* ===== verification/Chunk_Store.thy ===== *)
theory Chunk_Store
  imports Merkle Go_Path
begin

text \<open>
  The chunk store (\<open>internal/storage/chunk.go\<close>): splitting a file into chunks of 256 KiB,
  their storage in memory and on disk, retrieval with the fallback to the disk, the storage
  of downloaded chunks after verification, and reassembly. The file system is a state of
  its own; each of its operations can fail, as decided by the state.
\<close>

section \<open>The file system\<close>

text \<open>
  \<open>fs_blobs\<close> maps paths to contents. \<open>fs_mkdir\<close> and \<open>fs_read\<close> say whether the operation fails on a
  path; \<open>fs_write\<close> also says what a failed write leaves behind.
\<close>

record file_system =
  fs_blobs :: "(string, bytes) gomap"
  fs_mkdir :: "string \<Rightarrow> error option"
  fs_write :: "string \<Rightarrow> (error \<times> bytes option) option"
  fs_read :: "string \<Rightarrow> error option"

definition os_WriteFile :: "string \<Rightarrow> bytes \<Rightarrow> file_system \<Rightarrow> file_system \<times> error option" where
  "os_WriteFile path d fs =
     (case fs_write fs path of
        None \<Rightarrow> (fs\<lparr>fs_blobs := gm_set path d (fs_blobs fs)\<rparr>, None)
      | Some (e, None) \<Rightarrow> (fs, Some e)
      | Some (e, Some left) \<Rightarrow> (fs\<lparr>fs_blobs := gm_set path left (fs_blobs fs)\<rparr>, Some e))"

definition os_ReadFile :: "string \<Rightarrow> file_system \<Rightarrow> error + bytes" where
  "os_ReadFile path fs =
     (case fs_read fs path of
        Some e \<Rightarrow> Inl e
      | None \<Rightarrow> (case gm_get (fs_blobs fs) path of
                  None \<Rightarrow> Inl (''open '' @ path @ '': no such file or directory'')
                | Some d \<Rightarrow> Inr d))"

section \<open>Data\<close>

definition DefaultChunkSize :: int where
  "DefaultChunkSize = 262144"

record chunk =
  ch_FileID :: string
  ch_Index :: i32
  ch_Data :: bytes
  ch_Hash :: string
  ch_Size :: i32

record file_metadata =
  fm_FileID :: string
  fm_FileName :: string
  fm_TotalSize :: int
  fm_TotalChunks :: i32
  fm_ChunkHashes :: "string list"
  fm_RootHash :: string

record chunk_store =
  cs_baseDir :: string
  cs_files :: "(string, file_metadata) gomap"
  cs_chunks :: "(string, bytes) gomap"

section \<open>Operations\<close>

definition NewChunkStore :: "string \<Rightarrow> file_system \<Rightarrow> (error, chunk_store) outcome" where
  "NewChunkStore baseDir fs =
     (case fs_mkdir fs baseDir of
        Some e \<Rightarrow> Fail (''failed to create storage dir: '' @ e)
      | None \<Rightarrow> Return \<lparr>cs_baseDir = baseDir, cs_files = [], cs_chunks = []\<rparr>)"

definition chunkStoreKey :: "string \<Rightarrow> i32 \<Rightarrow> string" where
  "chunkStoreKey fileID index = fileID @ '':'' @ fmt_d (sint index)"

definition chunk_file_name :: "i32 \<Rightarrow> string" where
  "chunk_file_name index = ''chunk_'' @ fmt_d (sint index)"

definition persistChunk ::
  "chunk_store \<Rightarrow> string \<Rightarrow> i32 \<Rightarrow> bytes \<Rightarrow> file_system \<Rightarrow> file_system \<times> error option" where
  "persistChunk cs fileID index d fs =
     (let fileDir = path_Join [cs_baseDir cs, fileID]
      in case fs_mkdir fs fileDir of
           Some e \<Rightarrow> (fs, Some e)
         | None \<Rightarrow> os_WriteFile (path_Join [fileDir, chunk_file_name index]) d fs)"

text \<open>The \<open>i\<close>-th chunk of a file: \<open>data[start:end]\<close> with its digest.\<close>

definition split_chunk :: "string \<Rightarrow> bytes \<Rightarrow> nat \<Rightarrow> chunk" where
  "split_chunk fileID d i =
     (let totalSize = int (length d);
          start = int i * DefaultChunkSize;
          stop = (if start + DefaultChunkSize > totalSize then totalSize else start + DefaultChunkSize);
          chunkData = take (nat (stop - start)) (drop (nat start) d)
      in \<lparr>ch_FileID = fileID, ch_Index = word_of_nat i, ch_Data = chunkData,
          ch_Hash = ComputeHash chunkData, ch_Size = word_of_nat (length chunkData)\<rparr>)"

text \<open>The loop of \<open>SplitFile\<close> for the chunk numbers that are left; it returns at the first write error.\<close>

primrec split_loop ::
  "string \<Rightarrow> bytes \<Rightarrow> nat list \<Rightarrow> chunk_store \<Rightarrow> file_system \<Rightarrow> chunk list \<Rightarrow> string list
   \<Rightarrow> (chunk_store \<times> file_system) \<times> (error + chunk list \<times> string list)" where
  "split_loop fileID d [] cs fs chunks hashes = ((cs, fs), Inr (chunks, hashes))"
| "split_loop fileID d (i # is) cs fs chunks hashes =
     (let c = split_chunk fileID d i;
          cs' = cs\<lparr>cs_chunks := gm_set (chunkStoreKey fileID (ch_Index c)) (ch_Data c) (cs_chunks cs)\<rparr>
      in case persistChunk cs' fileID (ch_Index c) (ch_Data c) fs of
           (fs', err) \<Rightarrow>
             (case err of
                Some e \<Rightarrow> ((cs', fs'), Inl e)
              | None \<Rightarrow> split_loop fileID d is cs' fs' (chunks @ [c]) (hashes @ [ch_Hash c])))"

definition num_chunks :: "int \<Rightarrow> i32" where
  "num_chunks totalSize = word_of_int (go_quot (totalSize + DefaultChunkSize - 1) DefaultChunkSize)"

text \<open>
  \<open>make([]*Chunk, 0, numChunks)\<close> panics on a negative capacity, which an enormous file gives.
\<close>

definition SplitFile ::
  "string \<Rightarrow> string \<Rightarrow> bytes \<Rightarrow> chunk_store \<Rightarrow> file_system
   \<Rightarrow> (chunk_store \<times> file_system) \<times> (error, file_metadata \<times> chunk list) outcome" where
  "SplitFile fileID fileName d cs fs =
     (let totalSize = int (length d);
          numChunks = num_chunks totalSize
      in if sint numChunks < 0 then ((cs, fs), Panic Make_Slice_Size)
         else case split_loop fileID d [0..<nat (sint numChunks)] cs fs [] [] of
           ((cs', fs'), Inl e) \<Rightarrow> ((cs', fs'), Fail e)
         | ((cs', fs'), Inr (chunks, hashes)) \<Rightarrow>
             let metadata = \<lparr>fm_FileID = fileID, fm_FileName = fileName, fm_TotalSize = totalSize,
                             fm_TotalChunks = numChunks, fm_ChunkHashes = hashes,
                             fm_RootHash = RootHash hashes\<rparr>
             in ((cs'\<lparr>cs_files := gm_set fileID metadata (cs_files cs')\<rparr>, fs'), Return (metadata, chunks)))"

definition store_HasChunk :: "chunk_store \<Rightarrow> string \<Rightarrow> i32 \<Rightarrow> bool" where
  "store_HasChunk cs fileID index = (gm_get (cs_chunks cs) (chunkStoreKey fileID index) \<noteq> None)"

definition GetChunk :: "chunk_store \<Rightarrow> file_system \<Rightarrow> string \<Rightarrow> i32 \<Rightarrow> (error, bytes) outcome" where
  "GetChunk cs fs fileID index =
     (case gm_get (cs_chunks cs) (chunkStoreKey fileID index) of
        Some d \<Rightarrow> Return d
      | None \<Rightarrow>
          (case os_ReadFile (path_Join [cs_baseDir cs, fileID, chunk_file_name index]) fs of
             Inl e \<Rightarrow> Fail (''chunk not found: '' @ fileID @ '' chunk '' @ fmt_d (sint index))
           | Inr d \<Rightarrow> Return d))"

definition StoreDownloadedChunk ::
  "string \<Rightarrow> i32 \<Rightarrow> bytes \<Rightarrow> string \<Rightarrow> chunk_store \<Rightarrow> file_system
   \<Rightarrow> (chunk_store \<times> file_system) \<times> error option" where
  "StoreDownloadedChunk fileID index d expectedHash cs fs =
     (case VerifyChunk d expectedHash of
        Some e \<Rightarrow> ((cs, fs), Some (''chunk verification failed: '' @ e))
      | None \<Rightarrow>
          let cs' = cs\<lparr>cs_chunks := gm_set (chunkStoreKey fileID index) d (cs_chunks cs)\<rparr>;
              (fs', err) = persistChunk cs' fileID index d fs
          in ((cs', fs'), err))"

definition GetFileMetadata :: "chunk_store \<Rightarrow> string \<Rightarrow> file_metadata option" where
  "GetFileMetadata cs fileID = gm_get (cs_files cs) fileID"

primrec assemble_loop ::
  "chunk_store \<Rightarrow> file_system \<Rightarrow> string \<Rightarrow> nat list \<Rightarrow> bytes \<Rightarrow> (error, bytes) outcome" where
  "assemble_loop cs fs fileID [] result = Return result"
| "assemble_loop cs fs fileID (i # is) result =
     (case GetChunk cs fs fileID (word_of_nat i) of
        Fail err \<Rightarrow> Fail (''missing chunk '' @ fmt_d (int i) @ '': '' @ err)
      | Panic p \<Rightarrow> Panic p
      | Return chunkData \<Rightarrow> assemble_loop cs fs fileID is (result @ chunkData))"

definition AssembleFile :: "chunk_store \<Rightarrow> file_system \<Rightarrow> string \<Rightarrow> (error, bytes) outcome" where
  "AssembleFile cs fs fileID =
     (case GetFileMetadata cs fileID of
        None \<Rightarrow> Fail (''unknown file: '' @ fileID)
      | Some meta \<Rightarrow> assemble_loop cs fs fileID [0..<nat (sint (fm_TotalChunks meta))] [])"

section \<open>Keys and paths\<close>

lemma chunkStoreKey_inject: "chunkStoreKey f i = chunkStoreKey g j \<longleftrightarrow> f = g \<and> i = j"
proof
  assume "chunkStoreKey f i = chunkStoreKey g j"
  then have "f = g \<and> fmt_d (sint i) = fmt_d (sint j)"
    unfolding chunkStoreKey_def by (intro split_last) auto
  then show "f = g \<and> i = j" by (auto intro: signed_word_eqI)
qed simp

interpretation store_key: key_encoding "\<lambda>(fileID, index). chunkStoreKey fileID index"
  by unfold_locales (auto simp: chunkStoreKey_inject)

lemma plain_chunk_file_name: "plain_name (chunk_file_name i)"
  by (simp add: plain_name_def chunk_file_name_def)

lemma chunk_file_name_inject [simp]: "chunk_file_name i = chunk_file_name j \<longleftrightarrow> i = j"
  by (auto simp: chunk_file_name_def intro: signed_word_eqI)

definition chunk_path :: "string \<Rightarrow> string \<Rightarrow> i32 \<Rightarrow> string" where
  "chunk_path base fileID index = path_Join [base, fileID, chunk_file_name index]"

lemma path_Join_3: "base \<noteq> [] \<Longrightarrow> path_Join [base, f, c] = path_Clean (base @ ''/'' @ f @ ''/'' @ c)"
  by (simp add: path_Join_def)

text \<open>The path written by \<open>persistChunk\<close>, joined in two steps, is the one \<open>GetChunk\<close> reads.\<close>

lemma persist_path:
  "base \<noteq> [] \<Longrightarrow> path_Join [path_Join [base, f], chunk_file_name i] = chunk_path base f i"
  using Clean_append_Clean [of "base @ ''/'' @ f" "chunk_file_name i"]
  by (simp add: path_Join_def chunk_path_def)

lemma chunk_path_plain:
  assumes "base \<noteq> []" and "plain_name f"
  shows "chunk_path base f i = render_path (rooted base) (chunk_file_name i # f # clean_stack base)"
proof -
  have "clean_stack (base @ ''/'' @ (f @ ''/'' @ chunk_file_name i))
      = foldl (clean_step (rooted base)) (clean_stack base) [f, chunk_file_name i]"
    using assms plain_chunk_file_name [of i] split_slash_append [of f "chunk_file_name i"]
    unfolding clean_stack_append [OF assms(1)] by (simp add: plain_name_def split_slash_plain)
  then have "clean_stack (base @ ''/'' @ (f @ ''/'' @ chunk_file_name i)) = chunk_file_name i # f # clean_stack base"
    using assms(2) plain_chunk_file_name by (simp add: clean_step_plain)
  then show ?thesis
    unfolding chunk_path_def path_Join_3 [OF assms(1)] path_Clean_def
    by (simp add: rooted_append [OF assms(1)])
qed

lemma chunk_path_inject:
  assumes "base \<noteq> []" and "plain_name f" and "plain_name g"
  shows "chunk_path base f i = chunk_path base g j \<longleftrightarrow> f = g \<and> i = j"
proof -
  have "kept_stack (rooted base) (chunk_file_name k # w # clean_stack base)" if "plain_name w" for k w
    using that by (intro kept_stack_plain kept_clean_stack plain_chunk_file_name)
  then show ?thesis
    using assms by (simp add: chunk_path_plain render_inject) blast
qed

section \<open>Splitting\<close>

text \<open>A file system on which no operation fails.\<close>

definition faultless :: "file_system \<Rightarrow> bool" where
  "faultless fs \<longleftrightarrow> (\<forall>p. fs_mkdir fs p = None \<and> fs_write fs p = None \<and> fs_read fs p = None)"

abbreviation piece :: "bytes \<Rightarrow> nat \<Rightarrow> bytes" where
  "piece d i \<equiv> take 262144 (drop (i * 262144) d)"

lemma split_chunk_simps [simp]:
  "ch_FileID (split_chunk f d i) = f" "ch_Index (split_chunk f d i) = word_of_nat i"
  "ch_Hash (split_chunk f d i) = ComputeHash (ch_Data (split_chunk f d i))"
  "ch_Size (split_chunk f d i) = word_of_nat (length (ch_Data (split_chunk f d i)))"
  by (simp_all add: split_chunk_def Let_def)

lemma split_chunk_data: "i * 262144 \<le> length d \<Longrightarrow> ch_Data (split_chunk f d i) = piece d i"
proof -
  assume i: "i * 262144 \<le> length d"
  have s: "nat (int i * 262144) = i * 262144" by (simp add: nat_mult_distrib)
  show ?thesis
  proof (cases "int i * 262144 + 262144 > int (length d)")
    case True
    then have "length (drop (i * 262144) d) \<le> 262144"
      and "nat (int (length d) - int i * 262144) = length (drop (i * 262144) d)" by auto
    then show ?thesis using True s by (simp add: split_chunk_def Let_def DefaultChunkSize_def)
  next
    case False
    then show ?thesis using s by (simp add: split_chunk_def Let_def DefaultChunkSize_def)
  qed
qed

lemma concat_pieces: "concat (map (piece d) [0..<n]) = take (n * 262144) d"
proof (induction n)
  case (Suc n)
  have "take (Suc n * 262144) d = take (n * 262144) d @ piece d n"
    by (metis add.commute mult_Suc take_add)
  then show ?case using Suc by simp
qed simp

text \<open>The largest file whose number of chunks is an \<open>int32\<close>.\<close>

definition max_file :: int where
  "max_file = 2147483647 * 262144"

definition chunk_count :: "bytes \<Rightarrow> nat" where
  "chunk_count d = (length d + 262143) div 262144"

lemma num_chunks_value:
  assumes "int (length d) \<le> max_file"
  shows "sint (num_chunks (int (length d))) = int (chunk_count d)"
    and "nat (sint (num_chunks (int (length d)))) = chunk_count d"
proof -
  let ?n = "(int (length d) + 262143) div 262144"
  have n: "0 \<le> ?n" "?n < 2147483648" using assms by (simp_all add: max_file_def)
  have "num_chunks (int (length d)) = word_of_int ?n"
    by (simp add: num_chunks_def DefaultChunkSize_def go_quot_nonneg add.commute)
  moreover have "sint (word_of_int ?n :: i32) = ?n"
    using n by (simp add: signed_of_int signed_take_bit_int_eq_self)
  ultimately show "sint (num_chunks (int (length d))) = int (chunk_count d)"
    by (simp add: chunk_count_def zdiv_int)
  then show "nat (sint (num_chunks (int (length d)))) = chunk_count d" by simp
qed

lemma chunk_index_start: "i < chunk_count d \<Longrightarrow> i * 262144 < length d"
  by (simp add: chunk_count_def)

lemma chunk_count_covers: "length d \<le> chunk_count d * 262144"
  by (simp add: chunk_count_def)

text \<open>Chunk numbers below the \<open>int32\<close> limit are distinct as words, and print as themselves.\<close>

lemma word_of_nat_small_inject:
  "i < 2147483648 \<Longrightarrow> j < 2147483648 \<Longrightarrow> (word_of_nat i :: i32) = word_of_nat j \<longleftrightarrow> i = j"
  by (metis of_nat_eq_iff sint_small_nat)

text \<open>What the loop of \<open>SplitFile\<close> leaves behind when no write fails.\<close>

definition put_chunks :: "string \<Rightarrow> bytes \<Rightarrow> nat list \<Rightarrow> (string, bytes) gomap \<Rightarrow> (string, bytes) gomap" where
  "put_chunks f d is m =
     fold (\<lambda>i. gm_set (chunkStoreKey f (word_of_nat i)) (ch_Data (split_chunk f d i))) is m"

definition put_blobs :: "string \<Rightarrow> string \<Rightarrow> bytes \<Rightarrow> nat list \<Rightarrow> (string, bytes) gomap \<Rightarrow> (string, bytes) gomap" where
  "put_blobs base f d is m =
     fold (\<lambda>i. gm_set (chunk_path base f (word_of_nat i)) (ch_Data (split_chunk f d i))) is m"

lemma persistChunk_faultless:
  "faultless fs \<Longrightarrow> cs_baseDir cs \<noteq> [] \<Longrightarrow>
   persistChunk cs f i d fs
     = (fs\<lparr>fs_blobs := gm_set (chunk_path (cs_baseDir cs) f i) d (fs_blobs fs)\<rparr>, None)"
  by (simp add: persistChunk_def Let_def os_WriteFile_def faultless_def persist_path)

lemma split_loop_faultless:
  assumes "faultless fs" and "cs_baseDir cs \<noteq> []"
  shows "split_loop f d is cs fs chunks hashes =
    ((cs\<lparr>cs_chunks := put_chunks f d is (cs_chunks cs)\<rparr>,
      fs\<lparr>fs_blobs := put_blobs (cs_baseDir cs) f d is (fs_blobs fs)\<rparr>),
     Inr (chunks @ map (split_chunk f d) is, hashes @ map (\<lambda>i. ch_Hash (split_chunk f d i)) is))"
  using assms
proof (induction "is" arbitrary: cs fs chunks hashes)
  case (Cons i "is")
  let ?cs = "cs\<lparr>cs_chunks := gm_set (chunkStoreKey f (word_of_nat i)) (ch_Data (split_chunk f d i)) (cs_chunks cs)\<rparr>"
  let ?fs = "fs\<lparr>fs_blobs := gm_set (chunk_path (cs_baseDir cs) f (word_of_nat i)) (ch_Data (split_chunk f d i)) (fs_blobs fs)\<rparr>"
  have "faultless ?fs" "cs_baseDir ?cs \<noteq> []" using Cons.prems by (simp_all add: faultless_def)
  note IH = Cons.IH [OF this]
  show ?case
    using Cons.prems by (simp add: Let_def persistChunk_faultless IH put_chunks_def put_blobs_def)
qed (simp add: put_chunks_def put_blobs_def)

definition split_metadata :: "string \<Rightarrow> string \<Rightarrow> bytes \<Rightarrow> file_metadata" where
  "split_metadata f name d =
     (let hashes = map (\<lambda>i. ComputeHash (piece d i)) [0..<chunk_count d]
      in \<lparr>fm_FileID = f, fm_FileName = name, fm_TotalSize = int (length d),
          fm_TotalChunks = num_chunks (int (length d)), fm_ChunkHashes = hashes,
          fm_RootHash = RootHash hashes\<rparr>)"

lemma SplitFile_faultless:
  assumes "faultless fs" and "cs_baseDir cs \<noteq> []" and "int (length d) \<le> max_file"
  shows "SplitFile f name d cs fs =
    ((cs\<lparr>cs_chunks := put_chunks f d [0..<chunk_count d] (cs_chunks cs),
         cs_files := gm_set f (split_metadata f name d) (cs_files cs)\<rparr>,
      fs\<lparr>fs_blobs := put_blobs (cs_baseDir cs) f d [0..<chunk_count d] (fs_blobs fs)\<rparr>),
     Return (split_metadata f name d, map (split_chunk f d) [0..<chunk_count d]))"
proof -
  have h: "map (\<lambda>i. ComputeHash (ch_Data (split_chunk f d i))) [0..<chunk_count d]
      = map (\<lambda>i. ComputeHash (piece d i)) [0..<chunk_count d]"
    using chunk_index_start by (auto simp: split_chunk_data less_imp_le)
  show ?thesis
    unfolding split_metadata_def h [symmetric]
    using num_chunks_value [OF assms(3)]
    by (simp add: SplitFile_def Let_def split_loop_faultless [OF assms(1,2)])
qed

lemma put_chunks_get:
  assumes "i \<in> set is" and "\<forall>j \<in> set is. j < 2147483648"
  shows "gm_get (put_chunks f d is m) (chunkStoreKey f (word_of_nat i)) = Some (ch_Data (split_chunk f d i))"
  unfolding put_chunks_def
  using gm_get_fold_set [OF assms(1), where k = "\<lambda>i. chunkStoreKey f (word_of_nat i)"
      and v = "\<lambda>i. ch_Data (split_chunk f d i)"] assms
  by (simp add: chunkStoreKey_inject word_of_nat_small_inject)

lemma put_chunks_other:
  "g \<noteq> f \<Longrightarrow> gm_get (put_chunks f d is m) (chunkStoreKey g j) = gm_get m (chunkStoreKey g j)"
  unfolding put_chunks_def by (rule gm_get_fold_set_other) (auto simp: chunkStoreKey_inject)

lemma put_blobs_get:
  assumes "i \<in> set is" and "\<forall>j \<in> set is. j < 2147483648" and "base \<noteq> []" and "plain_name f"
  shows "gm_get (put_blobs base f d is m) (chunk_path base f (word_of_nat i)) = Some (ch_Data (split_chunk f d i))"
  unfolding put_blobs_def
  using gm_get_fold_set [OF assms(1), where k = "\<lambda>i. chunk_path base f (word_of_nat i)"
      and v = "\<lambda>i. ch_Data (split_chunk f d i)"] assms
  by (simp add: chunk_path_inject word_of_nat_small_inject)

lemma chunk_count_limit: "int (length d) \<le> max_file \<Longrightarrow> chunk_count d < 2147483648"
  by (simp add: chunk_count_def max_file_def)

lemma assemble_loop_pieces:
  assumes "\<And>i. i \<in> set is \<Longrightarrow> GetChunk cs fs f (word_of_nat i) = Return (p i)"
  shows "assemble_loop cs fs f is result = Return (result @ concat (map p is))"
  using assms by (induction "is" arbitrary: result) auto

end
