(* ===== verification/Chunk_Results.thy ===== *)
theory Chunk_Results
  imports Chunk_Store
begin

text \<open>
  What the chunk store promises: splitting partitions a file and reassembly gives it back,
  from memory and, after a restart, chunk by chunk from the disk; downloads are stored only
  when their digest matches; and where the code falls short (a failed write leaves the
  chunk in memory, a file identifier can leave the storage directory).
\<close>

section \<open>Retrieval after a split\<close>

definition no_faults :: "(string, bytes) gomap \<Rightarrow> file_system" where
  "no_faults blobs =
     \<lparr>fs_blobs = blobs, fs_mkdir = (\<lambda>_. None), fs_write = (\<lambda>_. None), fs_read = (\<lambda>_. None)\<rparr>"

lemma no_faults_faultless: "faultless (no_faults blobs)"
  by (simp add: faultless_def no_faults_def)

definition sample_store :: chunk_store where
  "sample_store = \<lparr>cs_baseDir = ''data'', cs_files = [], cs_chunks = []\<rparr>"

lemma GetChunk_memory:
  "gm_get (cs_chunks cs) (chunkStoreKey f i) = Some d \<Longrightarrow> GetChunk cs fs f i = Return d"
  by (simp add: GetChunk_def)

lemma split_get_chunk:
  assumes "int (length d) \<le> max_file" and "i < chunk_count d"
    and "cs_chunks cs' = put_chunks f d [0..<chunk_count d] m"
  shows "GetChunk cs' fs f (word_of_nat i) = Return (piece d i)"
proof -
  have "gm_get (cs_chunks cs') (chunkStoreKey f (word_of_nat i)) = Some (ch_Data (split_chunk f d i))"
    using put_chunks_get [of i "[0..<chunk_count d]" f d m] assms chunk_count_limit [OF assms(1)] by auto
  then show ?thesis
    using split_chunk_data [of i d f] chunk_index_start [OF assms(2)] by (simp add: GetChunk_memory)
qed

lemma assemble_after_split:
  assumes "faultless fs" and "cs_baseDir cs \<noteq> []" and "int (length d) \<le> max_file"
    and "SplitFile f name d cs fs = ((cs', fs'), r)"
  shows "AssembleFile cs' fs'' f = Return d"
proof -
  have cs': "cs' = cs\<lparr>cs_chunks := put_chunks f d [0..<chunk_count d] (cs_chunks cs),
         cs_files := gm_set f (split_metadata f name d) (cs_files cs)\<rparr>"
    using assms(4) SplitFile_faultless [OF assms(1-3)] by simp
  have "assemble_loop cs' fs'' f [0..<chunk_count d] [] = Return ([] @ concat (map (piece d) [0..<chunk_count d]))"
    using split_get_chunk [OF assms(3)] cs' by (intro assemble_loop_pieces) simp
  also have "concat (map (piece d) [0..<chunk_count d]) = d"
    using chunk_count_covers [of d] by (simp add: concat_pieces)
  finally show ?thesis
    using cs' num_chunks_value(2) [OF assms(3)]
    by (simp add: AssembleFile_def GetFileMetadata_def gm_simps split_metadata_def Let_def)
qed

section \<open>Results\<close>

text \<open>
  When no write fails and the file has fewer than 2^31 chunks, \<open>SplitFile\<close> returns chunks
  whose data concatenate to the file, numbered from 0, each non-empty, each but the last of
  exactly 256 KiB and none larger, each with its own SHA-256 digest; the metadata lists those
  digests, their Merkle root, and the number of chunks.
\<close>

lemma split_file_partitions:
  assumes "faultless fs" and "cs_baseDir cs \<noteq> []" and "int (length d) \<le> max_file"
  shows "\<exists>st meta chunks. SplitFile f name d cs fs = (st, Return (meta, chunks))
    \<and> concat (map ch_Data chunks) = d
    \<and> (\<forall>i < length chunks.
         ch_Index (chunks ! i) = word_of_nat i \<and> ch_Hash (chunks ! i) = ComputeHash (ch_Data (chunks ! i))
         \<and> 0 < length (ch_Data (chunks ! i)) \<and> length (ch_Data (chunks ! i)) \<le> 262144
         \<and> (Suc i < length chunks \<longrightarrow> length (ch_Data (chunks ! i)) = 262144))
    \<and> fm_ChunkHashes meta = map ch_Hash chunks \<and> fm_RootHash meta = RootHash (map ch_Hash chunks)
    \<and> sint (fm_TotalChunks meta) = int (length chunks) \<and> fm_TotalSize meta = int (length d)"
proof -
  let ?n = "chunk_count d"
  let ?chunks = "map (split_chunk f d) [0..<?n]" and ?meta = "split_metadata f name d"
  have data: "ch_Data (split_chunk f d i) = piece d i" if "i < ?n" for i
    using chunk_index_start [OF that] by (simp add: split_chunk_data)
  then have m: "map (\<lambda>i. ch_Data (split_chunk f d i)) [0..<?n] = map (piece d) [0..<?n]" by simp
  have "concat (map ch_Data ?chunks) = d"
    using chunk_count_covers [of d] by (simp add: comp_def m concat_pieces)
  moreover have "length (piece d i) = 262144" if "Suc i < ?n" for i
    using chunk_index_start [OF that] by simp
  moreover have "0 < length (piece d i)" if "i < ?n" for i
    using chunk_index_start [OF that] by simp
  moreover have "fm_ChunkHashes ?meta = map ch_Hash ?chunks"
    using data by (auto simp: split_metadata_def Let_def)
  moreover have "fm_RootHash ?meta = RootHash (fm_ChunkHashes ?meta)"
    "sint (fm_TotalChunks ?meta) = int ?n" "fm_TotalSize ?meta = int (length d)"
    using num_chunks_value(1) [OF assms(3)] by (simp_all add: split_metadata_def Let_def)
  ultimately show ?thesis
    using SplitFile_faultless [OF assms, of f name] data by (intro exI conjI) (auto, meson chunk_index_start leD)
qed

text \<open>
  C29: Round trip. A file that was split without a write error is reassembled to the same bytes
  by \<open>AssembleFile\<close>, even if the disk has lost or changed everything since.
\<close>

theorem split_assemble_roundtrip:
  assumes "faultless fs" and "cs_baseDir cs \<noteq> []" and "int (length d) \<le> max_file"
  shows "AssembleFile (fst (fst (SplitFile f name d cs fs))) fs'' f = Return d"
  using assemble_after_split [OF assms] by (metis prod.collapse)

theorem split_assemble_roundtrip_witness:
  "AssembleFile (fst (fst (SplitFile ''f'' ''n'' [1, 2, 3] sample_store (no_faults [])))) (no_faults []) ''f''
     = Return [1, 2, 3]"
  by (rule split_assemble_roundtrip [OF no_faults_faultless]) (simp_all add: sample_store_def max_file_def)

text \<open>
  After a restart (a new, empty store over the same directory) every chunk of a file that
  was split under a plain identifier is still returned by \<open>GetChunk\<close>, from the disk; but
  \<open>HasChunk\<close>, called the ground truth, denies having it, and \<open>AssembleFile\<close> does not know the file.
\<close>

lemma chunks_survive_restart:
  assumes "faultless fs" and "cs_baseDir cs \<noteq> []" and "int (length d) \<le> max_file"
    and "plain_name f" and "i < chunk_count d"
    and "SplitFile f name d cs fs = ((cs', fs'), r)"
    and "NewChunkStore (cs_baseDir cs) fs' = Return cs2"
  shows "GetChunk cs2 fs' f (word_of_nat i) = Return (take 262144 (drop (i * 262144) d))
    \<and> \<not> store_HasChunk cs2 f (word_of_nat i)
    \<and> AssembleFile cs2 fs' f = Fail (''unknown file: '' @ f)"
proof -
  have fs': "fs' = fs\<lparr>fs_blobs := put_blobs (cs_baseDir cs) f d [0..<chunk_count d] (fs_blobs fs)\<rparr>"
    using assms(6) SplitFile_faultless [OF assms(1-3)] by simp
  have cs2: "cs2 = \<lparr>cs_baseDir = cs_baseDir cs, cs_files = [], cs_chunks = []\<rparr>"
    using assms(7) by (auto simp: NewChunkStore_def split: option.splits)
  have "gm_get (fs_blobs fs') (chunk_path (cs_baseDir cs) f (word_of_nat i)) = Some (ch_Data (split_chunk f d i))"
    using put_blobs_get [of i "[0..<chunk_count d]"] assms(2,4,5) chunk_count_limit [OF assms(3)] fs' by auto
  moreover have "ch_Data (split_chunk f d i) = piece d i"
    using chunk_index_start [OF assms(5)] by (simp add: split_chunk_data)
  moreover have "fs_read fs' p = None" for p using fs' assms(1) by (simp add: faultless_def)
  ultimately show ?thesis
    using cs2 by (simp add: GetChunk_def gm_simps os_ReadFile_def chunk_path_def [symmetric]
        store_HasChunk_def AssembleFile_def GetFileMetadata_def)
qed

text \<open>
  A downloaded chunk enters the store exactly when its SHA-256 digest is the expected one:
  then it is what \<open>GetChunk\<close> returns for its file and index and nothing else changes in memory;
  otherwise an error is returned and store and disk are untouched.
\<close>

lemma store_downloaded_chunk_iff_verified:
  assumes "StoreDownloadedChunk f i d h cs fs = ((cs', fs'), err)"
  shows "if ComputeHash d = h
    then GetChunk cs' fs'' f i = Return d
      \<and> (\<forall>g j. (g, j) \<noteq> (f, i) \<longrightarrow> store_HasChunk cs' g j = store_HasChunk cs g j
            \<and> gm_get (cs_chunks cs') (chunkStoreKey g j) = gm_get (cs_chunks cs) (chunkStoreKey g j))
      \<and> cs_files cs' = cs_files cs
    else err \<noteq> None \<and> cs' = cs \<and> fs' = fs"
proof (cases "ComputeHash d = h")
  case True
  then have "cs' = cs\<lparr>cs_chunks := gm_set (chunkStoreKey f i) d (cs_chunks cs)\<rparr>"
    using assms by (simp add: StoreDownloadedChunk_def VerifyChunk_def Let_def split: prod.splits)
  then show ?thesis
    using True by (auto simp: GetChunk_def store_HasChunk_def gm_simps chunkStoreKey_inject)
qed (use assms in \<open>auto simp: StoreDownloadedChunk_def VerifyChunk_def Let_def\<close>)

text \<open>
  A write error is reported after the fact: when the digest matches but persisting fails,
  \<open>StoreDownloadedChunk\<close> returns the error although the chunk is already in memory, so
  \<open>HasChunk\<close> and \<open>GetChunk\<close> serve a chunk whose storage was reported as failed.
\<close>

lemma failed_write_keeps_chunk:
  assumes "fs_mkdir fs (path_Join [cs_baseDir cs, f]) = Some e"
  shows "\<exists>cs'. StoreDownloadedChunk f i d (ComputeHash d) cs fs = ((cs', fs), Some e)
    \<and> store_HasChunk cs' f i \<and> GetChunk cs' fs f i = Return d"
  using assms by (simp add: StoreDownloadedChunk_def VerifyChunk_def Let_def persistChunk_def
      store_HasChunk_def GetChunk_def gm_simps)

text \<open>
  Under plain file identifiers (as the UUIDs of \<open>UploadFile\<close> are) different chunks are kept
  in different files, all in the directory of their file under the storage directory.
\<close>

lemma chunk_files_distinct:
  assumes "base \<noteq> []" and "plain_name f" and "plain_name g"
  shows "(path_Join [base, f, chunk_file_name i] = path_Join [base, g, chunk_file_name j] \<longleftrightarrow> f = g \<and> i = j)
    \<and> path_Join [base, f, chunk_file_name i]
        = render_path (rooted base) (chunk_file_name i # f # clean_stack base)"
  using chunk_path_inject [OF assms] chunk_path_plain [OF assms(1,2)] by (simp add: chunk_path_def)

text \<open>
  C37: The fallback to the disk does not check the identifier it is given, which comes from the
  network: asked for the file \<open>../b/F\<close>, a store over the directory \<open>dir/a\<close> reads the chunks
  of the file \<open>F\<close> in the storage directory \<open>dir/b\<close> of another peer.
\<close>

theorem get_chunk_path_traversal:
  assumes "dir \<noteq> []" and "plain_name a" and "plain_name b" and "plain_name F"
    and "cs_baseDir cs = dir @ ''/'' @ a" and "cs_baseDir other = dir @ ''/'' @ b"
    and "gm_get (cs_chunks cs) (chunkStoreKey (''../'' @ b @ ''/'' @ F) i) = None"
    and "gm_get (cs_chunks other) (chunkStoreKey F i) = None"
    and "GetChunk other fs F i = Return d"
  shows "GetChunk cs fs (''../'' @ b @ ''/'' @ F) i = Return d"
proof -
  let ?c = "chunk_file_name i" and ?f = "''../'' @ b @ ''/'' @ F"
  have stack: "clean_stack (dir @ ''/'' @ w) = w # clean_stack dir" if "plain_name w" for w
    unfolding clean_stack_append [OF assms(1)]
    using that by (simp add: split_slash_plain plain_name_def clean_step_def)
  have split_f: "split_slash (?f @ ''/'' @ ?c) = [''..'', b, F, ?c]"
    using split_slash_append [of "''..''" "b @ ''/'' @ F @ ''/'' @ ?c"] split_slash_append [of b "F @ ''/'' @ ?c"]
      split_slash_append [of F ?c] plain_chunk_file_name [of i] assms(3,4)
    by (simp add: plain_name_def split_slash_plain)
  have root: "rooted (cs_baseDir cs) = rooted dir" "rooted (cs_baseDir other) = rooted dir"
    using assms(5,6) rooted_append [OF assms(1)] by simp_all
  have ne: "cs_baseDir cs \<noteq> []" "cs_baseDir other \<noteq> []" using assms(1,5,6) by simp_all
  have "clean_stack (cs_baseDir cs @ ''/'' @ (?f @ ''/'' @ ?c)) = ?c # F # b # clean_stack dir"
    unfolding clean_stack_append [OF ne(1)] root split_f
    using stack [OF assms(2)] assms(2-5) plain_chunk_file_name [of i]
    by (simp add: clean_step_plain) (simp add: clean_step_def plain_name_def)
  then have "chunk_path (cs_baseDir cs) ?f i = render_path (rooted dir) (?c # F # b # clean_stack dir)"
    unfolding chunk_path_def path_Join_3 [OF ne(1)] path_Clean_def
    using rooted_append [OF ne(1), of "''/'' @ ?f @ ''/'' @ ?c"] root by simp
  moreover have "chunk_path (cs_baseDir other) F i = render_path (rooted dir) (?c # F # b # clean_stack dir)"
    using chunk_path_plain [OF ne(2) assms(4)] stack [OF assms(3)] assms(6) root by simp
  ultimately show ?thesis
    using assms(7-9) by (auto simp: GetChunk_def chunk_path_def [symmetric] split: sum.splits)
qed

theorem get_chunk_path_traversal_witness:
  "GetChunk \<lparr>cs_baseDir = ''./data/peer-1'', cs_files = [], cs_chunks = []\<rparr>
     (no_faults [(''data/peer-2/F/chunk_0'', [42])]) (''../'' @ ''peer-2'' @ ''/'' @ ''F'') 0 = Return [42]"
  by (rule get_chunk_path_traversal [where dir = "''./data''" and a = "''peer-1''"
        and other = "\<lparr>cs_baseDir = ''./data/peer-2'', cs_files = [], cs_chunks = []\<rparr>"])
    (simp_all add: plain_name_def gm_simps, code_simp)

end
