(* ===== verification/Storage_Manager.thy ===== *)
theory Storage_Manager
  imports Go_Format Bloom_Filter Chunk_Results
begin

text \<open>
  The storage manager (\<open>internal/storage/manager.go\<close>) joins the chunk store and the Bloom
  filter: uploads and received chunks enter both, queries ask the filter first and the store
  to confirm. Its central property is that the two agree: every chunk in the store is
  reported by the filter. The identifier that \<open>uuid.New\<close> draws is an argument of \<open>UploadFile\<close>.
\<close>

section \<open>Definitions\<close>

record storage_manager =
  sm_Store :: chunk_store
  sm_Bloom :: bloom_filter
  sm_peerID :: i32

definition NewStorageManager ::
  "(real \<Rightarrow> real) \<Rightarrow> i32 \<Rightarrow> string \<Rightarrow> file_system \<Rightarrow> (error, storage_manager) outcome" where
  "NewStorageManager fl peerID baseDir fs =
     bind_outcome (NewChunkStore baseDir fs) (\<lambda>store.
     bind_outcome (NewBloomFilter fl 10000 (fl (1 / 100))) (\<lambda>bloom.
     Return \<lparr>sm_Store = store, sm_Bloom = bloom, sm_peerID = peerID\<rparr>))"

text \<open>\<open>s[:n]\<close> of a string or slice, with the bounds check of the runtime.\<close>

definition slice_prefix :: "'a list \<Rightarrow> nat \<Rightarrow> ('e, 'a list) outcome" where
  "slice_prefix xs n = (if n \<le> length xs then Return (take n xs) else Panic Slice_Bounds)"

text \<open>The first 16 characters of the root hash are taken for the log line, before returning.\<close>

definition UploadFile ::
  "string \<Rightarrow> string \<Rightarrow> bytes \<Rightarrow> storage_manager \<Rightarrow> file_system
   \<Rightarrow> (storage_manager \<times> file_system) \<times> (error, file_metadata) outcome" where
  "UploadFile fileID fileName d sm fs =
     (case SplitFile fileID fileName d (sm_Store sm) fs of
        ((cs', fs'), Fail e) \<Rightarrow> ((sm\<lparr>sm_Store := cs'\<rparr>, fs'), Fail e)
      | ((cs', fs'), Panic p) \<Rightarrow> ((sm\<lparr>sm_Store := cs'\<rparr>, fs'), Panic p)
      | ((cs', fs'), Return (metadata, chunks)) \<Rightarrow>
          (case for_each (\<lambda>c bf. Add bf (ChunkKey (ch_FileID c) (ch_Index c))) chunks (sm_Bloom sm) of
             Fail e \<Rightarrow> ((sm\<lparr>sm_Store := cs'\<rparr>, fs'), Fail e)
           | Panic p \<Rightarrow> ((sm\<lparr>sm_Store := cs'\<rparr>, fs'), Panic p)
           | Return bf \<Rightarrow>
               ((sm\<lparr>sm_Store := cs', sm_Bloom := bf\<rparr>, fs'),
                bind_outcome (slice_prefix (fm_RootHash metadata) 16) (\<lambda>_. Return metadata))))"

definition MightHaveChunk :: "storage_manager \<Rightarrow> string \<Rightarrow> i32 \<Rightarrow> (error, bool) outcome" where
  "MightHaveChunk sm fileID index = MightContain (sm_Bloom sm) (ChunkKey fileID index)"

definition ConfirmHasChunk :: "storage_manager \<Rightarrow> string \<Rightarrow> i32 \<Rightarrow> bool" where
  "ConfirmHasChunk sm fileID index = store_HasChunk (sm_Store sm) fileID index"

definition DownloadChunk ::
  "storage_manager \<Rightarrow> file_system \<Rightarrow> string \<Rightarrow> i32 \<Rightarrow> (error, bytes \<times> string) outcome" where
  "DownloadChunk sm fs fileID index =
     bind_outcome (GetChunk (sm_Store sm) fs fileID index) (\<lambda>d. Return (d, ComputeHash d))"

definition ReceiveChunk ::
  "string \<Rightarrow> i32 \<Rightarrow> bytes \<Rightarrow> string \<Rightarrow> storage_manager \<Rightarrow> file_system
   \<Rightarrow> (storage_manager \<times> file_system) \<times> (error, unit) outcome" where
  "ReceiveChunk fileID index d expectedHash sm fs =
     (case StoreDownloadedChunk fileID index d expectedHash (sm_Store sm) fs of
        ((cs', fs'), Some e) \<Rightarrow>
          ((sm\<lparr>sm_Store := cs'\<rparr>, fs'),
           Fail (''[Peer-'' @ fmt_d (sint (sm_peerID sm)) @ ''] REJECTED chunk '' @ fmt_d (sint index)
                 @ '' of '' @ fileID @ '': '' @ e))
      | ((cs', fs'), None) \<Rightarrow>
          (case Add (sm_Bloom sm) (ChunkKey fileID index) of
             Return bf \<Rightarrow> ((sm\<lparr>sm_Store := cs', sm_Bloom := bf\<rparr>, fs'), Return ())
           | Fail e \<Rightarrow> ((sm\<lparr>sm_Store := cs'\<rparr>, fs'), Fail e)
           | Panic p \<Rightarrow> ((sm\<lparr>sm_Store := cs'\<rparr>, fs'), Panic p)))"

text \<open>What \<open>PrintStats\<close> writes to the standard output.\<close>

definition PrintStats :: "(real \<Rightarrow> real) \<Rightarrow> storage_manager \<Rightarrow> string" where
  "PrintStats fl sm =
     (let stats = Stats fl (sm_Bloom sm) in
      newline @ box_title (''   PEER-'' @ fmt_d (sint (sm_peerID sm)) @ '' STORAGE STATS           '')
      @ ''Bloom Filter:'' @ newline
      @ ''  Bits:              '' @ fmt_d (bs_NumBits stats) @ newline
      @ ''  Hash Functions:    '' @ fmt_d (bs_NumHashes stats) @ newline
      @ ''  Items Added:       '' @ fmt_d (bs_ItemCount stats) @ newline
      @ ''  Est. FP Rate:      '' @ fmt_f 4 (fl (bs_EstimatedFPRate stats * 100)) @ ''%'' @ newline
      @ ''  Size:              '' @ fmt_d (int (bs_SizeBytes stats)) @ '' bytes'' @ newline @ newline)"

section \<open>Agreement of the store and the filter\<close>

definition synced :: "storage_manager \<Rightarrow> bool" where
  "synced sm \<longleftrightarrow> bloom_wf (sm_Bloom sm)
     \<and> (\<forall>f i. ConfirmHasChunk sm f i \<longrightarrow> MightHaveChunk sm f i = Return True)"

lemma for_each_map: "for_each (\<lambda>x. body (g x)) xs s = for_each body (map g xs) s"
  by (induction xs arbitrary: s) (auto intro!: arg_cong [where f = "bind_outcome _"])

text \<open>Adding the keys of some chunks: no panic, they are found, and nothing is forgotten.\<close>

lemma Add_chunk_keys:
  assumes "bloom_wf bf"
  shows "\<exists>bf'. for_each (\<lambda>c bf. Add bf (ChunkKey (ch_FileID c) (ch_Index c))) chunks bf = Return bf'
    \<and> bloom_wf bf' \<and> (\<forall>c \<in> set chunks. MightContain bf' (ChunkKey (ch_FileID c) (ch_Index c)) = Return True)
    \<and> (\<forall>k. MightContain bf k = Return True \<longrightarrow> MightContain bf' k = Return True)"
  using bloom.add_each [OF assms, of "map (\<lambda>c. ChunkKey (ch_FileID c) (ch_Index c)) chunks"]
  unfolding for_each_map [where g = "\<lambda>c. ChunkKey (ch_FileID c) (ch_Index c)" and body = "\<lambda>k f. Add f k"]
  by simp

text \<open>The keys that splitting adds to the store are those of the chunks it returns.\<close>

lemma split_loop_keys:
  assumes "split_loop f d is cs fs chunks hashes = ((cs', fs'), Inr (chunks', hashes'))"
    and "store_HasChunk cs' g j"
  shows "store_HasChunk cs g j \<or> (\<exists>c \<in> set chunks'. ch_FileID c = g \<and> ch_Index c = j)"
proof -
  have "set chunks \<subseteq> set chunks' \<and> (store_HasChunk cs' g j \<longrightarrow> store_HasChunk cs g j
      \<or> (\<exists>c \<in> set chunks'. ch_FileID c = g \<and> ch_Index c = j))"
    using assms(1)
  proof (induction "is" arbitrary: cs fs chunks hashes)
    case (Cons i "is")
    let ?c = "split_chunk f d i"
    let ?cs = "cs\<lparr>cs_chunks := gm_set (chunkStoreKey f (word_of_nat i)) (ch_Data ?c) (cs_chunks cs)\<rparr>"
    obtain fs1 where "split_loop f d is ?cs fs1 (chunks @ [?c]) (hashes @ [ch_Hash ?c]) = ((cs', fs'), Inr (chunks', hashes'))"
      using Cons.prems by (auto simp: Let_def split: prod.splits option.splits)
    note IH = Cons.IH [OF this]
    have "store_HasChunk ?cs g j \<longleftrightarrow> store_HasChunk cs g j \<or> (g = f \<and> j = word_of_nat i)"
      by (auto simp: store_HasChunk_def gm_simps chunkStoreKey_inject)
    moreover have "\<exists>c \<in> set chunks'. ch_FileID c = f \<and> ch_Index c = word_of_nat i"
      using IH by (intro bexI [of _ ?c]) auto
    ultimately show ?case using IH by auto
  qed auto
  then show ?thesis using assms(2) by blast
qed

lemma SplitFile_keys:
  assumes "SplitFile f name d cs fs = ((cs', fs'), Return (meta, chunks))" and "store_HasChunk cs' g j"
  shows "store_HasChunk cs g j \<or> (\<exists>c \<in> set chunks. ch_FileID c = g \<and> ch_Index c = j)"
proof -
  obtain cs1 hashes where s: "split_loop f d [0..<nat (sint (num_chunks (int (length d))))] cs fs [] []
      = ((cs1, fs'), Inr (chunks, hashes))" and "cs_chunks cs' = cs_chunks cs1"
    using assms(1) by (auto simp: SplitFile_def Let_def split: prod.splits sum.splits if_splits)
  then have "store_HasChunk cs1 g j" using assms(2) by (simp add: store_HasChunk_def)
  then show ?thesis using split_loop_keys [OF s] by blast
qed

lemma UploadFile_Return:
  assumes "UploadFile f name d sm fs = ((sm', fs'), r)" and "SplitFile f name d (sm_Store sm) fs = ((cs', fs''), Return (meta, chunks))"
    and "bloom_wf (sm_Bloom sm)"
  obtains bf where "sm' = sm\<lparr>sm_Store := cs', sm_Bloom := bf\<rparr>" "fs' = fs''" "bloom_wf bf"
    "\<forall>c \<in> set chunks. MightContain bf (ChunkKey (ch_FileID c) (ch_Index c)) = Return True"
    "\<forall>k. MightContain (sm_Bloom sm) k = Return True \<longrightarrow> MightContain bf k = Return True"
    "r = bind_outcome (slice_prefix (fm_RootHash meta) 16) (\<lambda>_. Return meta)"
proof -
  obtain bf where "for_each (\<lambda>c bf. Add bf (ChunkKey (ch_FileID c) (ch_Index c))) chunks (sm_Bloom sm) = Return bf"
    "bloom_wf bf" "\<forall>c \<in> set chunks. MightContain bf (ChunkKey (ch_FileID c) (ch_Index c)) = Return True"
    "\<forall>k. MightContain (sm_Bloom sm) k = Return True \<longrightarrow> MightContain bf k = Return True"
    using Add_chunk_keys [OF assms(3), of chunks] by blast
  then show thesis using assms(1,2) that by (auto simp: UploadFile_def)
qed

lemma SplitFile_Panic:
  "SplitFile f name d cs fs = ((cs', fs'), Panic q) \<Longrightarrow> cs' = cs \<and> fs' = fs"
  by (auto simp: SplitFile_def Let_def split: prod.splits sum.splits if_splits)

lemma synced_UploadFile:
  assumes "synced sm" and "UploadFile f name d sm fs = ((sm', fs'), r)" and "\<forall>e. r \<noteq> Fail e"
  shows "synced sm'"
proof -
  have wf: "bloom_wf (sm_Bloom sm)" using assms(1) by (simp add: synced_def)
  obtain cs' fs'' s where s: "SplitFile f name d (sm_Store sm) fs = ((cs', fs''), s)" by (metis surj_pair)
  show ?thesis
  proof (cases s)
    case (Return mc)
    obtain meta chunks where "mc = (meta, chunks)" by (cases mc)
    then have s': "SplitFile f name d (sm_Store sm) fs = ((cs', fs''), Return (meta, chunks))" using s Return by simp
    from UploadFile_Return [OF assms(2) this wf] obtain bf where bf:
      "sm' = sm\<lparr>sm_Store := cs', sm_Bloom := bf\<rparr>" "bloom_wf bf"
      "\<forall>c \<in> set chunks. MightContain bf (ChunkKey (ch_FileID c) (ch_Index c)) = Return True"
      "\<forall>k. MightContain (sm_Bloom sm) k = Return True \<longrightarrow> MightContain bf k = Return True"
      by metis
    then show ?thesis
      using assms(1) SplitFile_keys [OF s'] by (fastforce simp: synced_def ConfirmHasChunk_def MightHaveChunk_def)
  next
    case (Fail e)
    then show ?thesis using s assms(2,3) by (auto simp: UploadFile_def)
  next
    case (Panic q)
    then have "sm' = sm" using s assms(2) SplitFile_Panic [of f name d "sm_Store sm" fs cs' fs'' q]
      by (auto simp: UploadFile_def)
    then show ?thesis using assms(1) by simp
  qed
qed

text \<open>Storing a verified chunk: which keys the store has afterwards.\<close>

lemma StoreDownloadedChunk_has:
  assumes "StoreDownloadedChunk f i d h cs fs = ((cs', fs'), err)"
  shows "store_HasChunk cs' g j \<longleftrightarrow> store_HasChunk cs g j \<or> (ComputeHash d = h \<and> g = f \<and> j = i)"
    and "ComputeHash d \<noteq> h \<Longrightarrow> cs' = cs \<and> fs' = fs \<and> err \<noteq> None"
    and "err = None \<Longrightarrow> gm_get (cs_chunks cs') (chunkStoreKey f i) = Some d"
  using assms by (auto simp: StoreDownloadedChunk_def VerifyChunk_def Let_def store_HasChunk_def gm_simps
      chunkStoreKey_inject split: prod.splits if_splits)

lemma ReceiveChunk_Return:
  assumes "ReceiveChunk f i d h sm fs = ((sm', fs'), Return u)" and "bloom_wf (sm_Bloom sm)"
  obtains cs' bf where "StoreDownloadedChunk f i d h (sm_Store sm) fs = ((cs', fs'), None)"
    "sm' = sm\<lparr>sm_Store := cs', sm_Bloom := bf\<rparr>" "bloom_wf bf" "MightContain bf (ChunkKey f i) = Return True"
    "\<forall>k. MightContain (sm_Bloom sm) k = Return True \<longrightarrow> MightContain bf k = Return True"
  using assms(1) bloom.add_law [OF assms(2), of "ChunkKey f i"] that
  by (auto simp: ReceiveChunk_def split: prod.splits option.splits outcome.splits)

lemma synced_ReceiveChunk:
  assumes "synced sm" and "ReceiveChunk f i d h sm fs = ((sm', fs'), r)"
    and "r = Return () \<or> ComputeHash d \<noteq> h"
  shows "synced sm'"
proof (cases "ComputeHash d = h")
  case True
  then have r: "ReceiveChunk f i d h sm fs = ((sm', fs'), Return ())" using assms(2,3) by simp
  have "bloom_wf (sm_Bloom sm)" using assms(1) by (simp add: synced_def)
  from ReceiveChunk_Return [OF r this] obtain cs' bf where
    "StoreDownloadedChunk f i d h (sm_Store sm) fs = ((cs', fs'), None)"
    "sm' = sm\<lparr>sm_Store := cs', sm_Bloom := bf\<rparr>" "bloom_wf bf" "MightContain bf (ChunkKey f i) = Return True"
    "\<forall>k. MightContain (sm_Bloom sm) k = Return True \<longrightarrow> MightContain bf k = Return True"
    by metis
  then show ?thesis
    using assms(1) by (auto simp: synced_def ConfirmHasChunk_def MightHaveChunk_def StoreDownloadedChunk_has(1))
next
  case False
  then show ?thesis
    using assms(1,2) by (auto simp: ReceiveChunk_def synced_def StoreDownloadedChunk_def VerifyChunk_def
        ConfirmHasChunk_def MightHaveChunk_def Let_def)
qed

end
