(* ===== verification/Filter_Sizing.thy ===== *)
theory Filter_Sizing
  imports Bloom_Filter
begin

text \<open>
  The sizing formulas of \<open>NewBloomFilter\<close>, evaluated for the parameters the storage manager
  passes (10,000 items, 1 percent). The bounds hold for every rounding that is accurate to
  one part in \<open>10\<^bsup>12\<^esup>\<close> on numbers of ordinary size, as \<open>float64\<close> is by a wide margin.
\<close>

section \<open>Accurate rounding\<close>

definition close_float :: "(real \<Rightarrow> real) \<Rightarrow> bool" where
  "close_float fl \<longleftrightarrow>
     (\<forall>x. 1 / 1000000 \<le> \<bar>x\<bar> \<and> \<bar>x\<bar> \<le> 1000000000 \<longrightarrow> \<bar>fl x - x\<bar> \<le> \<bar>x\<bar> / 1000000000000)"

lemma close_float_id: "close_float (\<lambda>x. x)"
  by (simp add: close_float_def)

lemma fl_pos:
  assumes "close_float fl" and "a \<le> x" and "x \<le> b" and "1 / 1000000 \<le> a" and "b \<le> 1000000000"
  shows "a - a / 1000000000000 \<le> fl x" and "fl x \<le> b + b / 1000000000000"
proof -
  have "\<bar>fl x - x\<bar> \<le> \<bar>x\<bar> / 1000000000000"
    using assms unfolding close_float_def by (elim allE [of _ x]) (auto simp: abs_of_nonneg)
  moreover have "0 \<le> x" using assms(2,4) by simp
  ultimately show "a - a / 1000000000000 \<le> fl x" "fl x \<le> b + b / 1000000000000"
    using assms(2,3) by linarith+
qed

lemma fl_neg:
  assumes "close_float fl" and "a \<le> - x" and "- x \<le> b" and "1 / 1000000 \<le> a" and "b \<le> 1000000000"
  shows "a - a / 1000000000000 \<le> - fl x" and "- fl x \<le> b + b / 1000000000000"
proof -
  have "\<bar>fl x - x\<bar> \<le> \<bar>x\<bar> / 1000000000000"
    using assms unfolding close_float_def by (elim allE [of _ x]) (auto simp: abs_of_nonpos)
  moreover have "x \<le> 0" using assms(2,4) by simp
  ultimately show "a - a / 1000000000000 \<le> - fl x" "- fl x \<le> b + b / 1000000000000"
    using assms(2,3) by linarith+
qed

section \<open>The logarithm of one percent\<close>

lemma square_step: "0 \<le> a \<Longrightarrow> a \<le> (x :: real) ^ n \<Longrightarrow> b \<le> a * a \<Longrightarrow> b \<le> x ^ (n + n)"
  using mult_mono [of a "x ^ n" a "x ^ n"] by (simp add: power_add)

lemma ln_percent:
  assumes "999 / 100000 \<le> p" and "p \<le> (1001 / 100000 :: real)"
  shows "- 5 \<le> ln p" and "ln p \<le> - (113 / 25)"
proof -
  have "(1 + 5 / real 128) ^ 128 \<le> exp (5 :: real)"
    by (rule exp_ge_one_plus_x_over_n_power_n) simp_all
  moreover have "101 \<le> (1 + 5 / real 128 :: real) ^ 128" by (simp add: power_divide)
  ultimately have "101 \<le> exp (5 :: real)" by linarith
  then have "exp (- 5 :: real) \<le> 1 / 101" by (simp add: exp_minus inverse_eq_divide divide_simps)
  then have "exp (- 5) \<le> p" using assms(1) by linarith
  then show "- 5 \<le> ln p" using assms(1) by (simp add: ln_ge_iff)
  have "(1 - (113 / 25) / real 128) ^ 128 \<le> exp (- (113 / 25 :: real))"
    by (rule exp_ge_one_minus_x_over_n_power_n) simp_all
  moreover have "1001 / 100000 \<le> (1 - (113 / 25) / real 128 :: real) ^ 128"
  proof -
    let ?x = "1 - (113 / 25) / real 128"
    have "0.93062 \<le> ?x ^ 2" by (simp add: power2_eq_square)
    then have "0.86605 \<le> ?x ^ 4" using square_step [of "0.93062" ?x 2 "0.86605"] by simp
    then have "0.75004 \<le> ?x ^ 8" using square_step [of "0.86605" ?x 4 "0.75004"] by simp
    then have "0.56255 \<le> ?x ^ 16" using square_step [of "0.75004" ?x 8 "0.56255"] by simp
    then have "0.31646 \<le> ?x ^ 32" using square_step [of "0.56255" ?x 16 "0.31646"] by simp
    then have "0.10014 \<le> ?x ^ 64" using square_step [of "0.31646" ?x 32 "0.10014"] by simp
    then show ?thesis using square_step [of "0.10014" ?x 64 "1001 / 100000"] by simp
  qed
  ultimately have "p \<le> exp (- (113 / 25))" using assms(2) by linarith
  then have "ln p \<le> ln (exp (- (113 / 25)))" using assms(1) by (intro ln_mono) simp_all
  then show "ln p \<le> - (113 / 25)" by simp
qed

section \<open>The filter of a storage manager\<close>

lemma default_bits:
  assumes "close_float fl"
  shows "94000 \<le> optimalNumBits fl 10000 (fl (1 / 100))" and "optimalNumBits fl 10000 (fl (1 / 100)) \<le> 104200"
proof -
  let ?p = "fl (1 / 100)" and ?n = "fl (-1 * fl 10000)" and ?d = "fl (math_Ln2 * math_Ln2)"
  have p: "999 / 100000 \<le> ?p" "?p \<le> 1001 / 100000"
    using fl_pos [OF assms, of "1/100" "1/100" "1/100"] by auto
  have "9999.999 \<le> fl 10000" "fl 10000 \<le> 10000.001"
    using fl_pos [OF assms, of 10000 10000 10000] by auto
  then have n: "9999.99 \<le> - ?n" "- ?n \<le> 10000.01"
    using fl_neg [OF assms, of "9999.999" "-1 * fl 10000" "10000.001"] by auto
  have l: "4.5199 \<le> - fl (ln ?p)" "- fl (ln ?p) \<le> 5.0001"
    using fl_neg [OF assms, of "113/25" "ln ?p" 5] ln_percent [OF p] by auto
  have "9999.99 * 4.5199 \<le> (- ?n) * (- fl (ln ?p))" "(- ?n) * (- fl (ln ?p)) \<le> 10000.01 * 5.0001"
    using n l by (intro mult_mono; simp)+
  then have q: "45198 \<le> ?n * fl (ln ?p)" "?n * fl (ln ?p) \<le> 50002" by simp_all
  have num: "45197 \<le> fl (?n * fl (ln ?p))" "fl (?n * fl (ln ?p)) \<le> 50003"
    using fl_pos [OF assms q] by auto
  have d: "0.4804 \<le> ?d" "?d \<le> 0.4806"
    using fl_pos [OF assms, of "0.48045" "math_Ln2 * math_Ln2" "0.48046"] by (auto simp: math_Ln2_def)
  have "94040 * ?d \<le> 94040 * 0.4806" "104090 * 0.4804 \<le> 104090 * ?d" using d by simp_all
  then have "94040 \<le> fl (?n * fl (ln ?p)) / ?d" "fl (?n * fl (ln ?p)) / ?d \<le> 104090"
    using num d by (simp_all add: pos_le_divide_eq pos_divide_le_eq)
  then have "94039 \<le> fl (fl (?n * fl (ln ?p)) / ?d)" "fl (fl (?n * fl (ln ?p)) / ?d) \<le> 104091"
    using fl_pos [OF assms, of 94040 "fl (?n * fl (ln ?p)) / ?d" 104090] by auto
  then show "94000 \<le> optimalNumBits fl 10000 ?p" "optimalNumBits fl 10000 ?p \<le> 104200"
    by (simp_all add: optimalNumBits_def Let_def le_ceiling_iff ceiling_le_iff)
qed

lemma default_hashes:
  assumes "close_float fl" and "94000 \<le> m" and "m \<le> 104200"
  shows "optimalNumHashes fl m 10000 = 7"
proof -
  have m: "93999.99 \<le> fl (of_int m)" "fl (of_int m) \<le> 104200.01"
    using fl_pos [OF assms(1), of 94000 "of_int m" 104200] assms(2,3) by auto
  have n: "9999.999 \<le> fl 10000" "fl 10000 \<le> 10000.001"
    using fl_pos [OF assms(1), of 10000 10000 10000] by auto
  have "9.3999 * fl 10000 \<le> 9.3999 * 10000.001" "10.4201 * 9999.999 \<le> 10.4201 * fl 10000"
    using n by simp_all
  then have "9.3999 \<le> fl (of_int m) / fl 10000" "fl (of_int m) / fl 10000 \<le> 10.4201"
    using m n by (simp_all add: pos_le_divide_eq pos_divide_le_eq)
  then have a: "9.39989 \<le> fl (fl (of_int m) / fl 10000)" "fl (fl (of_int m) / fl 10000) \<le> 10.4202"
    using fl_pos [OF assms(1), of "9.3999" "fl (of_int m) / fl 10000" "10.4201"] by auto
  have b: "0.693146 \<le> fl math_Ln2" "fl math_Ln2 \<le> 0.693148"
    using fl_pos [OF assms(1), of "0.6931471" math_Ln2 "0.6931472"] by (auto simp: math_Ln2_def)
  have "9.39989 * 0.693146 \<le> fl (fl (of_int m) / fl 10000) * fl math_Ln2"
    "fl (fl (of_int m) / fl 10000) * fl math_Ln2 \<le> 10.4202 * 0.693148"
    using a b by (intro mult_mono; simp)+
  then have "6.51 \<le> fl (fl (of_int m) / fl 10000) * fl math_Ln2" "fl (fl (of_int m) / fl 10000) * fl math_Ln2 \<le> 7.3"
    by simp_all
  note k = fl_pos [OF assms(1) this, simplified]
  have "\<lfloor>fl (fl (fl (of_int m) / fl 10000) * fl math_Ln2) + 1 / 2\<rfloor> = 7"
    using k by (simp add: floor_eq_iff)
  then show ?thesis using k by (simp add: optimalNumHashes_def math_Round_def Let_def)
qed

text \<open>The filter that \<open>NewBloomFilter\<close> returns for these parameters.\<close>

lemma default_filter:
  assumes "close_float fl"
  obtains bf where "NewBloomFilter fl 10000 (fl (1 / 100)) = Return bf" "bloom_wf bf" "numHashes bf = 7"
    "numBits bf \<in> {94000..104200}" "bits_of bf = {}" "itemCount bf = 0"
proof -
  let ?m = "optimalNumBits fl 10000 (fl (1 / 100))"
  let ?bf = "\<lparr>bitArray = replicate (nat ((?m + 7) div 8)) 0, numBits = ?m, numHashes = 7, itemCount = 0\<rparr>"
  note m = default_bits [OF assms]
  have "NewBloomFilter fl 10000 (fl (1 / 100)) = Return ?bf"
    using m default_hashes [OF assms m] by (simp add: NewBloomFilter_def Let_def go_quot_nonneg)
  moreover have wf: "bloom_wf ?bf" using m by (simp add: bloom_wf_def)
  moreover have "bits_of ?bf = {}" by (rule bits_of_fresh [OF _ wf]) simp
  ultimately show thesis using m by (intro that [of ?bf]) simp_all
qed

section \<open>Results\<close>

text \<open>
  The filter of a storage manager, built for 10,000 items at 1 percent, is made without a
  panic and is well-formed: it has between 94,000 and 104,200 bits, all clear, and exactly 7
  hash functions, whatever the rounding of the floating-point formulas.
\<close>

lemma default_filter_sizing:
  assumes "close_float fl"
  shows "\<exists>bf. NewBloomFilter fl 10000 (fl (1 / 100)) = Return bf \<and> bloom_wf bf
    \<and> numBits bf \<in> {94000..104200} \<and> numHashes bf = 7 \<and> bits_of bf = {}"
  using default_filter [OF assms] by blast

end
