(* ===== verification/Storage_Results.thy ===== *)
theory Storage_Results
  imports Storage_Manager Filter_Sizing
begin

text \<open>
  What the storage manager promises: in every run the filter knows each chunk of the store
  unless a write has failed; uploaded chunks can be found and downloaded; a chunk downloaded
  from one manager is accepted by another; and the two inputs on which the code falls short,
  the empty file and a failing disk.
\<close>

section \<open>Runs of a storage manager\<close>

text \<open>
  \<open>storage_run sm fs\<close>: the manager and the disk it runs over result from a new manager by
  uploads and received chunks, accepted or rejected for their digest, none of which failed
  on a write. Between the operations the disk may change in any way.
\<close>

inductive storage_run :: "storage_manager \<Rightarrow> file_system \<Rightarrow> bool" where
  created: "close_float fl \<Longrightarrow> NewStorageManager fl p base fs = Return sm \<Longrightarrow> storage_run sm fs"
| uploaded: "storage_run sm fs \<Longrightarrow> UploadFile f name d sm fs = ((sm', fs'), r) \<Longrightarrow> \<forall>e. r \<noteq> Fail e
    \<Longrightarrow> storage_run sm' fs'"
| received: "storage_run sm fs \<Longrightarrow> ReceiveChunk f i d h sm fs = ((sm', fs'), Return ())
    \<Longrightarrow> storage_run sm' fs'"
| rejected: "storage_run sm fs \<Longrightarrow> ReceiveChunk f i d h sm fs = ((sm', fs'), r) \<Longrightarrow> ComputeHash d \<noteq> h
    \<Longrightarrow> storage_run sm' fs'"
| disk_changed: "storage_run sm fs \<Longrightarrow> storage_run sm fs'"

lemma NewStorageManager_Return:
  assumes "close_float fl" and "NewStorageManager fl p base fs = Return sm"
  shows "synced sm" and "sm_Store sm = \<lparr>cs_baseDir = base, cs_files = [], cs_chunks = []\<rparr>"
proof -
  obtain bf where bf: "NewBloomFilter fl 10000 (fl (1 / 100)) = Return bf" "bloom_wf bf"
    using default_filter [OF assms(1)] by blast
  have sm: "sm = \<lparr>sm_Store = \<lparr>cs_baseDir = base, cs_files = [], cs_chunks = []\<rparr>, sm_Bloom = bf, sm_peerID = p\<rparr>"
    using assms(2) bf(1) by (auto simp: NewStorageManager_def NewChunkStore_def split: option.splits)
  show "sm_Store sm = \<lparr>cs_baseDir = base, cs_files = [], cs_chunks = []\<rparr>" by (simp add: sm)
  show "synced sm" using bf(2)
    by (simp add: sm synced_def ConfirmHasChunk_def store_HasChunk_def gm_simps)
qed

text \<open>A manager can be created over a disk without faults.\<close>

lemma NewStorageManager_works:
  assumes "close_float fl" and "faultless fs"
  shows "\<exists>sm. NewStorageManager fl p base fs = Return sm"
proof -
  obtain bf where "NewBloomFilter fl 10000 (fl (1 / 100)) = Return bf"
    using default_filter [OF assms(1)] by blast
  then show ?thesis using assms(2) by (simp add: NewStorageManager_def NewChunkStore_def faultless_def)
qed

lemma storage_run_synced: "storage_run sm fs \<Longrightarrow> synced sm"
proof (induction rule: storage_run.induct)
  case created
  then show ?case using NewStorageManager_Return(1) by blast
next
  case uploaded
  then show ?case using synced_UploadFile by blast
next
  case received
  then show ?case using synced_ReceiveChunk by blast
next
  case rejected
  then show ?case using synced_ReceiveChunk by blast
qed

section \<open>Uploads\<close>

definition sample_manager :: storage_manager where
  "sample_manager = \<lparr>sm_Store = sample_store, sm_Bloom = clear_filter 4 3, sm_peerID = 1\<rparr>"

lemma sample_manager_synced: "synced sample_manager"
  by (simp add: synced_def sample_manager_def clear_filter_wf ConfirmHasChunk_def store_HasChunk_def
      sample_store_def gm_simps)

lemma RootHash_empty: "RootHash [] = []"
  by (simp add: RootHash_def BuildMerkleTree_def)

lemma RootHash_chunks: "hs \<noteq> [] \<Longrightarrow> \<forall>h \<in> set hs. length h = 64 \<Longrightarrow> length (RootHash hs) = 64"
  by (rule RootHash_length)

lemma chunk_count_pos: "d \<noteq> [] \<Longrightarrow> 0 < chunk_count d"
  using chunk_count_covers [of d] by (cases "chunk_count d") auto

lemma split_metadata_root: "d \<noteq> [] \<Longrightarrow> length (fm_RootHash (split_metadata f name d)) = 64"
  using chunk_count_pos [of d] by (auto simp: split_metadata_def Let_def intro!: RootHash_chunks)

lemma upload_available:
  assumes "faultless fs" and "cs_baseDir (sm_Store sm) \<noteq> []" and "synced sm"
    and "d \<noteq> []" and "int (length d) \<le> max_file"
    and "UploadFile f name d sm fs = ((sm', fs'), r)"
  shows "r = Return (split_metadata f name d)"
    and "i < chunk_count d \<Longrightarrow> DownloadChunk sm' fs'' f (word_of_nat i) = Return (piece d i, ComputeHash (piece d i))
      \<and> ConfirmHasChunk sm' f (word_of_nat i) \<and> MightHaveChunk sm' f (word_of_nat i) = Return True"
proof -
  have wf: "bloom_wf (sm_Bloom sm)" using assms(3) by (simp add: synced_def)
  note split = SplitFile_faultless [OF assms(1,2,5), of f name]
  obtain bf where sm': "sm' = sm\<lparr>sm_Store := sm_Store sm\<lparr>cs_chunks := put_chunks f d [0..<chunk_count d] (cs_chunks (sm_Store sm)),
         cs_files := gm_set f (split_metadata f name d) (cs_files (sm_Store sm))\<rparr>, sm_Bloom := bf\<rparr>"
    and r': "r = bind_outcome (slice_prefix (fm_RootHash (split_metadata f name d)) 16) (\<lambda>_. Return (split_metadata f name d))"
    using UploadFile_Return [OF assms(6) split wf] by blast
  show r: "r = Return (split_metadata f name d)"
    using r' split_metadata_root [OF assms(4), of f name] by (simp add: slice_prefix_def)
  assume i: "i < chunk_count d"
  have "gm_get (cs_chunks (sm_Store sm')) (chunkStoreKey f (word_of_nat i)) = Some (ch_Data (split_chunk f d i))"
    using put_chunks_get [of i "[0..<chunk_count d]"] i chunk_count_limit [OF assms(5)] sm' by auto
  then have "ConfirmHasChunk sm' f (word_of_nat i)" by (simp add: ConfirmHasChunk_def store_HasChunk_def)
  moreover have "synced sm'" using synced_UploadFile [OF assms(3,6)] r by simp
  moreover have "GetChunk (sm_Store sm') fs'' f (word_of_nat i) = Return (piece d i)"
    using split_get_chunk [OF assms(5) i, of "sm_Store sm'"] sm' by simp
  ultimately show "DownloadChunk sm' fs'' f (word_of_nat i) = Return (piece d i, ComputeHash (piece d i))
      \<and> ConfirmHasChunk sm' f (word_of_nat i) \<and> MightHaveChunk sm' f (word_of_nat i) = Return True"
    by (simp add: DownloadChunk_def synced_def)
qed

section \<open>Results\<close>

text \<open>
  The filter never denies a chunk the manager has. Whatever uploads and received chunks a
  manager has gone through without a failed write, the filter check never panics and every
  chunk that the store confirms is reported as possibly present.
\<close>

lemma filter_never_denies_stored_chunk:
  assumes "storage_run sm fs"
  shows "(\<exists>b. MightHaveChunk sm f i = Return b) \<and> (ConfirmHasChunk sm f i \<longrightarrow> MightHaveChunk sm f i = Return True)"
  using storage_run_synced [OF assms] bloom.test_law
  unfolding synced_def MightHaveChunk_def by blast

text \<open>
  Uploading a non-empty file when no write fails returns its metadata, and then each of its
  chunks is announced by the filter, confirmed by the store, and downloaded as the bytes of
  the file at its position together with their SHA-256 digest, whatever the disk does.
\<close>

lemma uploaded_chunks_available:
  assumes "faultless fs" and "cs_baseDir (sm_Store sm) \<noteq> []" and "synced sm"
    and "d \<noteq> []" and "int (length d) \<le> max_file"
    and "UploadFile f name d sm fs = ((sm', fs'), r)"
  shows "r = Return (split_metadata f name d) \<and>
    (\<forall>i < chunk_count d. DownloadChunk sm' fs'' f (word_of_nat i)
         = Return (take 262144 (drop (i * 262144) d), ComputeHash (take 262144 (drop (i * 262144) d)))
       \<and> ConfirmHasChunk sm' f (word_of_nat i) \<and> MightHaveChunk sm' f (word_of_nat i) = Return True)"
  using upload_available [OF assms] by blast

text \<open>
  Uploading an empty file panics. It has no chunks, its root hash is the empty string, and
  the log line takes the first 16 characters of it: every empty upload ends in a slice
  bounds panic, after the metadata was stored.
\<close>

lemma empty_upload_panics:
  "snd (UploadFile f name [] sm fs) = Panic Slice_Bounds
   \<and> GetFileMetadata (sm_Store (fst (fst (UploadFile f name [] sm fs)))) f \<noteq> None"
  by (simp add: UploadFile_def SplitFile_def num_chunks_def DefaultChunkSize_def go_quot_def Let_def
      RootHash_empty slice_prefix_def GetFileMetadata_def gm_simps)

text \<open>A chunk with its own digest is accepted unless the disk fails, and only its entry changes.\<close>

lemma receive_verified:
  assumes "synced sm" and "faultless fs" and "cs_baseDir (sm_Store sm) \<noteq> []"
    and "ReceiveChunk f i d (ComputeHash d) sm fs = ((sm', fs'), r)"
  shows "r = Return ()" and "synced sm'" and "faultless fs'"
    and "sm_Store sm' = sm_Store sm\<lparr>cs_chunks := gm_set (chunkStoreKey f i) d (cs_chunks (sm_Store sm))\<rparr>"
proof -
  have wf: "bloom_wf (sm_Bloom sm)" using assms(1) by (simp add: synced_def)
  let ?cs = "sm_Store sm\<lparr>cs_chunks := gm_set (chunkStoreKey f i) d (cs_chunks (sm_Store sm))\<rparr>"
  obtain fs4 where fs4: "StoreDownloadedChunk f i d (ComputeHash d) (sm_Store sm) fs = ((?cs, fs4), None)" "faultless fs4"
    using persistChunk_faultless [OF assms(2), of ?cs f i d] assms(2,3)
    by (simp add: StoreDownloadedChunk_def VerifyChunk_def Let_def faultless_def)
  then have "r = Return () \<and> sm_Store sm' = ?cs \<and> fs' = fs4"
    using assms(4) bloom.add_law [OF wf, of "ChunkKey f i"] by (auto simp: ReceiveChunk_def)
  moreover from this have "synced sm'" using synced_ReceiveChunk [OF assms(1,4)] by simp
  ultimately show "r = Return ()" "synced sm'" "faultless fs'" "sm_Store sm' = ?cs" using fs4(2) by simp_all
qed

text \<open>
  A chunk downloaded from one manager is accepted by another, with the digest that came
  with it, unless the receiver's disk fails; the receiver then serves the same bytes and
  digest, and announces and confirms the chunk.
\<close>

lemma chunk_transfer:
  assumes "DownloadChunk from fs f i = Return (d, h)" and "synced to" and "faultless fs2"
    and "cs_baseDir (sm_Store to) \<noteq> []" and "ReceiveChunk f i d h to fs2 = ((to', fs2'), r)"
  shows "r = Return () \<and> DownloadChunk to' fs3 f i = Return (d, h)
    \<and> ConfirmHasChunk to' f i \<and> MightHaveChunk to' f i = Return True"
proof -
  have h: "h = ComputeHash d" using assms(1) by (simp add: DownloadChunk_def outcome_elims)
  note rec = receive_verified [OF assms(2-4) assms(5) [unfolded h]]
  then show ?thesis
    using h by (simp add: DownloadChunk_def GetChunk_def gm_simps synced_def ConfirmHasChunk_def store_HasChunk_def)
qed

text \<open>
  A write error breaks the agreement. When the digest matches but the directory cannot be
  created, the chunk is reported as rejected, yet the store confirms it and serves it to
  others, while the filter was not told about it.
\<close>

lemma failed_receive_breaks_agreement:
  assumes "fs_mkdir fs (path_Join [cs_baseDir (sm_Store sm), f]) = Some e"
    and "MightHaveChunk sm f i = Return False"
  shows "\<exists>sm' msg. ReceiveChunk f i d (ComputeHash d) sm fs = ((sm', fs), Fail msg)
    \<and> ConfirmHasChunk sm' f i \<and> DownloadChunk sm' fs f i = Return (d, ComputeHash d)
    \<and> MightHaveChunk sm' f i = Return False"
  using assms by (simp add: ReceiveChunk_def StoreDownloadedChunk_def VerifyChunk_def Let_def persistChunk_def
      ConfirmHasChunk_def store_HasChunk_def DownloadChunk_def GetChunk_def MightHaveChunk_def gm_simps)

end
