(* ===== verification/Dijkstra_Results.thy ===== *)
theory Dijkstra_Results
  imports Dijkstra_Correct
begin

text \<open>
  The contract of the router: totality and optimality of the search, and what
  \<open>CalculateRoute\<close> and its cache promise together.
\<close>

section \<open>A sample network\<close>

definition sample_node :: "i32 \<Rightarrow> graph_node" where
  "sample_node i = \<lparr>gn_ID = i, gn_Address = [], gn_LastSeen = 0\<rparr>"

definition sample_edge :: "i32 \<Rightarrow> i32 \<Rightarrow> int \<Rightarrow> graph_edge" where
  "sample_edge a b l = \<lparr>ge_From = a, ge_To = b, ge_LatencyMs = l\<rparr>"

definition sample_graph :: graph where
  "sample_graph =
     \<lparr>GetNodeList = map sample_node [1, 2, 3, 4],
      GetEdgeList = [sample_edge 1 2 10, sample_edge 2 3 5, sample_edge 1 3 20, sample_edge 3 1 1]\<rparr>"

lemma sample_graph_nodes: "node_ids sample_graph = {1, 2, 3, 4}"
  by (simp add: sample_graph_def node_ids_def sample_node_def)

lemma sample_graph_ok: "graph_ok 20 sample_graph"
  unfolding graph_ok_def sample_graph_nodes
  by (simp add: sample_graph_def sample_edge_def inf64_def max_int64_def)

section \<open>The search\<close>

lemma dijkstra_total: "\<exists>r. dijkstra ord g s t = Some r \<and> (\<forall>p. r \<noteq> Panic p)"
proof (cases "s \<in> node_ids g \<and> t \<in> node_ids g \<and> dist_of (final_state ord g s t) t \<noteq> inf64")
  case True
  then have "dist_of (final_state ord g s t) t < inf64"
    using final_loop_inv [of s g t ord] by (simp add: loop_inv_def order_less_le)
  then obtain r where "settled_chain (node_ids g) (final_state ord g s t) s t r"
    using final_chain True by blast
  from final_walk_back [OF this] show ?thesis using True by (simp add: dijkstra_unfold)
qed (auto simp: dijkstra_unfold)

lemma dijkstra_Return:
  assumes "graph_ok M g" and "dijkstra ord g s t = Some (Return (path, latency))"
  shows "\<exists>p. graph_walk g s p t \<and> path = walk_nodes s p \<and> latency = walk_latency p
    \<and> distinct path \<and> (\<forall>q. graph_walk g s q t \<longrightarrow> latency \<le> walk_latency q)"
proof -
  let ?st = "final_state ord g s t"
  have st: "s \<in> node_ids g" "t \<in> node_ids g" "dist_of ?st t \<noteq> inf64"
    and wb: "walk_back (previous ?st) t [] = Some path" and lat: "latency = dist_of ?st t"
    using assms(2) by (auto simp: dijkstra_unfold split: if_splits)
  note li = final_loop_inv [OF st(1,2), of ord]
  have fin: "dist_of ?st t < inf64" using li st by (simp add: loop_inv_def order_less_le)
  obtain r where r: "settled_chain (node_ids g) ?st s t r" using final_chain [OF st(1,2) fin] .
  have "t \<noteq> -1" using assms(1) st(2) by (auto simp: graph_ok_def)
  then have path: "path = rev (t # r)" using wb final_walk_back [OF r] by simp
  then have "distinct path" using r by (auto simp: settled_chain_def)
  then show ?thesis
    using chain_is_walk [OF li final_opt_inv(1) [OF st(1,2) assms(1)] r st(2) fin] path lat
      final_distance(2) [OF st(1,2) assms(1)] by metis
qed

lemma dijkstra_Return_iff:
  assumes "graph_ok M g"
  shows "(\<exists>path latency. dijkstra ord g s t = Some (Return (path, latency)))
    \<longleftrightarrow> s \<in> node_ids g \<and> t \<in> node_ids g \<and> (\<exists>q. graph_walk g s q t)"
proof (cases "s \<in> node_ids g \<and> t \<in> node_ids g")
  case True
  then have "dist_of (final_state ord g s t) t \<le> inf64"
    using final_loop_inv [of s g t ord] by (simp add: loop_inv_def)
  then have "dist_of (final_state ord g s t) t \<noteq> inf64 \<longleftrightarrow> (\<exists>q. graph_walk g s q t)"
    using True final_distance(1) [OF _ _ assms] by (metis order_less_le)
  moreover obtain r where "dijkstra ord g s t = Some r" using dijkstra_total by blast
  ultimately show ?thesis using True by (auto simp: dijkstra_unfold split: if_splits)
qed (auto simp: dijkstra_unfold)

lemma dijkstra_no_path:
  assumes "graph_ok M g" and "s \<in> node_ids g" and "t \<in> node_ids g" and "\<nexists>q. graph_walk g s q t"
  shows "dijkstra ord g s t = Some (Fail (err_no_path s t))"
proof -
  have "dist_of (final_state ord g s t) t \<le> inf64"
    using assms(2,3) final_loop_inv [of s g t ord] by (simp add: loop_inv_def)
  then have "dist_of (final_state ord g s t) t = inf64"
    using assms final_distance(1) [OF assms(2,3,1)] by (metis order_less_le)
  then show ?thesis using assms(2,3) by (simp add: dijkstra_unfold)
qed

lemma dijkstra_latency_unique:
  assumes "graph_ok M g"
  shows "map_option (map_outcome id snd) (dijkstra ord g s t)
    = map_option (map_outcome id snd) (dijkstra ord' g s t)"
proof (cases "s \<in> node_ids g \<and> t \<in> node_ids g")
  case False
  then show ?thesis by (auto simp: dijkstra_unfold)
next
  case True
  show ?thesis
  proof (cases "\<exists>q. graph_walk g s q t")
    case conn: True
    obtain p l p' l' where r: "dijkstra ord g s t = Some (Return (p, l))" "dijkstra ord' g s t = Some (Return (p', l'))"
      using dijkstra_Return_iff [OF assms] True conn by metis
    have "l = l'"
      using dijkstra_Return [OF assms r(1)] dijkstra_Return [OF assms r(2)] by (meson order_antisym)
    with r show ?thesis by simp
  next
    case False
    then have "dijkstra ord g s t = Some (Fail (err_no_path s t))" for ord
      using True dijkstra_no_path [OF assms] by blast
    then show ?thesis by simp
  qed
qed

text \<open>
  C2: The shortest-path search of \<open>dijkstra\<close> terminates and does not panic, for every graph
  (negative or overflowing latencies, dangling edges and the sentinel identifier included),
  every pair of peers and every iteration order of the Go maps; in particular the loop that
  walks the predecessors back always reaches the sentinel.
\<close>

theorem dijkstra_always_returns: "\<exists>r. dijkstra ord g s t = Some r \<and> (\<forall>p. r \<noteq> Panic p)"
  by (rule dijkstra_total)

text \<open>
  C1: On a graph whose latencies are non-negative and small enough not to overflow, and in
  which no peer has the identifier -1, a route that \<open>dijkstra\<close> returns is a walk of the graph
  from source to target that visits no peer twice, the returned latency is the sum of its
  edges, and no walk between the two peers has a smaller latency.
\<close>

theorem dijkstra_finds_shortest_path:
  assumes "graph_ok M g" and "dijkstra ord g s t = Some (Return (path, latency))"
  shows "\<exists>p. graph_walk g s p t \<and> path = walk_nodes s p \<and> latency = walk_latency p
    \<and> distinct path \<and> (\<forall>q. graph_walk g s q t \<longrightarrow> latency \<le> walk_latency q)"
  using assms by (rule dijkstra_Return)

theorem dijkstra_finds_shortest_path_witness:
  "\<exists>p. graph_walk sample_graph 1 p 3 \<and> [1, 2, 3] = walk_nodes 1 p \<and> 15 = walk_latency p
    \<and> distinct [1, 2, 3 :: i32] \<and> (\<forall>q. graph_walk sample_graph 1 q 3 \<longrightarrow> 15 \<le> walk_latency q)"
proof (rule dijkstra_finds_shortest_path [OF sample_graph_ok])
  show "dijkstra (\<lambda>_. []) sample_graph 1 3 = Some (Return ([1, 2, 3], 15))" by code_simp
qed

text \<open>
  C28: On such a graph, \<open>dijkstra\<close> succeeds exactly when both peers are in the graph and some
  walk connects them: it never misses a route and never invents one.
\<close>

theorem dijkstra_succeeds_iff_connected:
  assumes "graph_ok M g"
  shows "(\<exists>path latency. dijkstra ord g s t = Some (Return (path, latency)))
    \<longleftrightarrow> s \<in> node_ids g \<and> t \<in> node_ids g \<and> (\<exists>q. graph_walk g s q t)"
  using assms by (rule dijkstra_Return_iff)

theorem dijkstra_succeeds_iff_connected_witness:
  "(\<exists>path latency. dijkstra (\<lambda>_. []) sample_graph 1 4 = Some (Return (path, latency)))
    \<longleftrightarrow> 1 \<in> node_ids sample_graph \<and> 4 \<in> node_ids sample_graph \<and> (\<exists>q. graph_walk sample_graph 1 q 4)"
  by (rule dijkstra_succeeds_iff_connected [OF sample_graph_ok])

text \<open>
  The order in which Go visits its maps may change which of several equally short paths
  is returned, but never the latency, nor which error is returned.
\<close>

lemma dijkstra_latency_order_independent:
  assumes "graph_ok M g"
  shows "map_option (map_outcome id snd) (dijkstra ord g s t)
    = map_option (map_outcome id snd) (dijkstra ord' g s t)"
  using assms by (rule dijkstra_latency_unique)

text \<open>
  C39: The identifier -1 is the search's own sentinel. A peer with that identifier can be in
  the graph, but from it no route is ever found, whatever the edges, and a route to it that
  is found comes with an empty path.
\<close>

theorem dijkstra_sentinel_peer:
  "\<not> (\<exists>path latency. t \<noteq> -1 \<and> dijkstra ord g (-1) t = Some (Return (path, latency)))
   \<and> (\<forall>path latency. dijkstra ord g s (-1) = Some (Return (path, latency)) \<longrightarrow> path = [])"
proof (intro conjI allI impI notI)
  fix path latency
  assume "dijkstra ord g s (-1) = Some (Return (path, latency))"
  then show "path = []"
    by (auto simp: dijkstra_unfold walk_back.simps split: if_splits)
next
  assume "\<exists>path latency. t \<noteq> -1 \<and> dijkstra ord g (-1) t = Some (Return (path, latency))"
  then obtain path latency where t: "t \<noteq> -1" and r: "dijkstra ord g (-1) t = Some (Return (path, latency))"
    by blast
  let ?st = "start_state g (-1)"
  have ids: "-1 \<in> node_ids g" "t \<in> node_ids g" using r by (auto simp: dijkstra_unfold split: if_splits)
  obtain c m where scan: "scan_min (distances ?st) (map fst (gm_range (ord 0) (unvisited ?st))) (-1) inf64 = (c, m)"
    by (metis surj_pair)
  have "c = -1"
    using scan_min_value [OF scan] scan_open(2) [OF scan] start_loop_inv(2,3) [OF ids(1)]
    by (auto split: if_splits)
  then have "final_state ord g (-1) t = ?st"
    by (simp add: final_state_def dijkstra_loop_unfold [where ord = ord and k = 0 and st = ?st, OF scan])
  then have "dist_of (final_state ord g (-1) t) t = inf64"
    using start_loop_inv(3) [OF ids(1)] ids(2) t by simp
  then show False using r by (simp add: dijkstra_unfold split: if_splits)
qed

theorem dijkstra_sentinel_peer_witness:
  "dijkstra (\<lambda>_. []) \<lparr>GetNodeList = map sample_node [-1, 1], GetEdgeList = [sample_edge (-1) 1 5, sample_edge 1 (-1) 5]\<rparr> 1 (-1)
     = Some (Return ([], 5))
   \<and> \<not> (\<exists>path latency. (1 :: i32) \<noteq> -1 \<and> dijkstra (\<lambda>_. [])
       \<lparr>GetNodeList = map sample_node [-1, 1], GetEdgeList = [sample_edge (-1) 1 5, sample_edge 1 (-1) 5]\<rparr> (-1) 1
         = Some (Return (path, latency)))"
  (is "?run \<and> \<not> ?route")
proof
  show ?run by code_simp
  show "\<not> ?route"
    using dijkstra_sentinel_peer [of 1 "\<lambda>_. []"
      "\<lparr>GetNodeList = map sample_node [-1, 1], GetEdgeList = [sample_edge (-1) 1 5, sample_edge 1 (-1) 5]\<rparr>" 1]
    by blast
qed

end
