(* ===== verification/Router.thy ===== *)
theory Router
  imports Dijkstra_Results
begin

text \<open>
  The router as a state machine: \<open>CalculateRoute\<close> fills the cache, the two invalidations
  empty it wholly or in part. The steps carry the graphs the router has been asked about,
  so that a theorem can say for which graph a route served from the cache is shortest.
\<close>

section \<open>What a route promises\<close>

definition shortest_route :: "graph \<Rightarrow> route \<Rightarrow> bool" where
  "shortest_route g r \<longleftrightarrow>
     (\<exists>p. graph_walk g (FromPeerID r) p (ToPeerID r)
        \<and> Path r = walk_nodes (FromPeerID r) p
        \<and> TotalLatency r = walk_latency p
        \<and> distinct (Path r)
        \<and> Hops r = word_of_int (int (length (Path r)) - 1)
        \<and> (\<forall>q. graph_walk g (FromPeerID r) q (ToPeerID r) \<longrightarrow> TotalLatency r \<le> walk_latency q))"

lemma walk_latency_nonneg:
  "graph_ok M g \<Longrightarrow> graph_walk g u p v \<Longrightarrow> 0 \<le> walk_latency p"
  by (induction p arbitrary: u) (auto simp: graph_ok_def list_all_iff)

lemma self_route_shortest:
  "graph_ok M g \<Longrightarrow> FromPeerID r = ToPeerID r \<Longrightarrow> Path r = [FromPeerID r] \<Longrightarrow> TotalLatency r = 0
   \<Longrightarrow> Hops r = 0 \<Longrightarrow> shortest_route g r"
  using walk_latency_nonneg unfolding shortest_route_def
  by (intro exI [of _ "[]"]) (auto simp: walk_nodes_def)

section \<open>The cases of CalculateRoute\<close>

text \<open>A call answers itself, serves the cache, or searches and then stores what it found.\<close>

lemma CalculateRoute_cases:
  assumes "CalculateRoute clk ord g f t dr = Some (dr', r)"
  obtains (self) r' where "f = t" "dr' = dr" "r = Return r'" "FromPeerID r' = f" "ToPeerID r' = t"
      "Path r' = [f]" "TotalLatency r' = 0" "Hops r' = 0"
  | (hit) r' where "f \<noteq> t" "cache_Get (clk 0) f t (dr_cache dr) = Some r'" "dr' = dr" "r = Return r'"
  | (found) path l r' where "f \<noteq> t" "cache_Get (clk 0) f t (dr_cache dr) = None"
      "dijkstra ord g f t = Some (Return (path, l))" "r = Return r'"
      "r' = \<lparr>FromPeerID = f, ToPeerID = t, Path = path, TotalLatency = l,
             Hops = word_of_int (int (length path) - 1), CreatedAt = clk 1\<rparr>"
      "dr' = dr\<lparr>dr_cache := cache_Set (clk 2) r' (dr_cache dr)\<rparr>"
  | (error) e where "f \<noteq> t" "cache_Get (clk 0) f t (dr_cache dr) = None"
      "dijkstra ord g f t = Some (Fail e)" "r = Fail e" "dr' = dr"
proof -
  obtain x where x: "dijkstra ord g f t = Some x" "\<forall>p. x \<noteq> Panic p" using dijkstra_total by blast
  show thesis
  proof (cases "f = t")
    case True
    then show thesis
      using assms that(1) [of "\<lparr>FromPeerID = f, ToPeerID = t, Path = [f], TotalLatency = 0,
          Hops = 0, CreatedAt = clk 0\<rparr>"]
      by (simp add: CalculateRoute_def)
  next
    case ne: False
    show thesis
    proof (cases "cache_Get (clk 0) f t (dr_cache dr)")
      case (Some r')
      then show thesis using assms that(2) [OF ne Some] ne by (simp add: CalculateRoute_def)
    next
      case None
      show thesis
      proof (cases x)
        case (Return pl)
        obtain path l where "pl = (path, l)" by (cases pl)
        then show thesis
          using assms that(3) [OF ne None, of path l] None ne x(1) Return
          by (simp add: CalculateRoute_def Let_def)
      next
        case (Fail e)
        then show thesis using assms that(4) [OF ne None, of e] None ne x(1)
          by (simp add: CalculateRoute_def)
      qed (use x(2) in simp)
    qed
  qed
qed

lemma CalculateRoute_total: "\<exists>dr' r. CalculateRoute clk ord g f t dr = Some (dr', r) \<and> (\<forall>p. r \<noteq> Panic p)"
proof (cases "f = t \<or> cache_Get (clk 0) f t (dr_cache dr) \<noteq> None")
  case True
  then show ?thesis
    by (cases "f = t") (force simp: CalculateRoute_def)+
next
  case False
  obtain x where x: "dijkstra ord g f t = Some x" "\<forall>p. x \<noteq> Panic p" using dijkstra_total by blast
  then show ?thesis
  proof (cases x)
    case (Return pl)
    obtain path l where "pl = (path, l)" by (cases pl)
    with x(1) Return False show ?thesis by (simp add: CalculateRoute_def Let_def)
  next
    case (Fail e)
    with x(1) False show ?thesis by (simp add: CalculateRoute_def)
  qed simp
qed

lemma found_route_shortest:
  assumes "graph_ok M g" and "dijkstra ord g f t = Some (Return (path, l))"
    and "r = \<lparr>FromPeerID = f, ToPeerID = t, Path = path, TotalLatency = l,
             Hops = word_of_int (int (length path) - 1), CreatedAt = c\<rparr>"
  shows "shortest_route g r"
  using dijkstra_Return [OF assms(1,2)] assms(3) by (auto simp: shortest_route_def)

section \<open>Runs of the router\<close>

text \<open>
  \<open>router_run gs dr\<close>: the router \<open>dr\<close> results from a new one by route calculations on the
  graphs \<open>gs\<close> (the latest first) and by invalidations, in any order.
\<close>

inductive router_run :: "graph list \<Rightarrow> dijkstra_router \<Rightarrow> bool" where
  new_router: "router_run [] NewDijkstraRouter"
| calculate: "router_run gs dr \<Longrightarrow> graph_ok M g \<Longrightarrow> CalculateRoute clk ord g f t dr = Some (dr', r)
    \<Longrightarrow> router_run (g # gs) dr'"
| invalidate: "router_run gs dr \<Longrightarrow> router_run gs (fst (InvalidateCache dr))"
| invalidate_peer: "router_run gs dr \<Longrightarrow> router_run gs (fst (InvalidatePeerRoutes cs p dr))"

definition cached_shortest :: "graph list \<Rightarrow> dijkstra_router \<Rightarrow> bool" where
  "cached_shortest gs dr \<longleftrightarrow> cache_wf (dr_cache dr)
     \<and> (\<forall>now f t r. cache_Get now f t (dr_cache dr) = Some r \<longrightarrow> (\<exists>g \<in> set gs. shortest_route g r))"

lemma dr_cache_InvalidateCache [simp]:
  "dr_cache (fst (InvalidateCache dr)) = fst (cache_Invalidate (dr_cache dr))"
  by (simp add: InvalidateCache_def split: prod.split)

lemma dr_cache_InvalidatePeerRoutes [simp]:
  "dr_cache (fst (InvalidatePeerRoutes cs p dr)) = fst (cache_InvalidatePeer cs p (dr_cache dr))"
  by (simp add: InvalidatePeerRoutes_def split: prod.split)

text \<open>What invalidating a peer leaves: exactly the lookups whose route avoids the peer.\<close>

lemma cache_Get_InvalidatePeer:
  assumes "cache_wf rc"
  shows "cache_Get now f t (fst (cache_InvalidatePeer cs p rc)) =
    (case cache_Get now f t rc of None \<Rightarrow> None | Some r \<Rightarrow> if p \<in> set (Path r) then None else Some r)"
proof -
  have wf: "gm_wf (rc_routes rc)" using assms by (simp add: cache_wf_def)
  show ?thesis
  proof (cases "gm_get (rc_routes rc) (cacheKey f t)")
    case None
    then show ?thesis by (simp add: cache_Get_def cache_InvalidatePeer_def Let_def fold_gm_del_get)
  next
    case (Some c)
    then show ?thesis
      using collected_keys_iff [OF wf Some, of p cs]
      by (simp add: cache_Get_def cache_InvalidatePeer_def Let_def fold_gm_del_get)
  qed
qed

lemma cached_shortest_calculate:
  assumes "cached_shortest gs dr" and "graph_ok M g" and "CalculateRoute clk ord g f t dr = Some (dr', r)"
  shows "cached_shortest (g # gs) dr'"
    and "r = Return r' \<Longrightarrow> FromPeerID r' = f \<and> ToPeerID r' = t \<and> (\<exists>h \<in> set (g # gs). shortest_route h r')"
proof -
  have wf: "cache_wf (dr_cache dr)" using assms(1) by (simp add: cached_shortest_def)
  have both: "cached_shortest (g # gs) dr' \<and>
      (\<forall>r'. r = Return r' \<longrightarrow> FromPeerID r' = f \<and> ToPeerID r' = t \<and> (\<exists>h \<in> set (g # gs). shortest_route h r'))"
    using assms(3)
  proof (cases rule: CalculateRoute_cases)
    case (self r')
    then show ?thesis using assms(1,2) self_route_shortest [OF assms(2), of r']
      by (auto simp: cached_shortest_def)
  next
    case (hit r')
    then show ?thesis using assms(1) cache_Get_endpoints [OF wf]
      by (auto simp: cached_shortest_def)
  next
    case (found path l r')
    have sr: "shortest_route g r'" using found_route_shortest [OF assms(2) found(3,5)] .
    have "\<exists>h \<in> set (g # gs). shortest_route h v" if "cache_Get now k1 k2 (dr_cache dr') = Some v" for now k1 k2 v
      using route_memo.put_keeps_property
          [of "dr_cache dr" "\<lambda>_ v. \<exists>h \<in> set (g # gs). shortest_route h v" r' now "(k1, k2)" "clk 2" v]
        wf assms(1) sr that found(6) by (auto simp: cached_shortest_def)
    then show ?thesis using found wf sr by (simp add: cached_shortest_def)
  next
    case (error e)
    then show ?thesis using assms(1) by (auto simp: cached_shortest_def)
  qed
  then show "cached_shortest (g # gs) dr'" by blast
  show "r = Return r' \<Longrightarrow> FromPeerID r' = f \<and> ToPeerID r' = t \<and> (\<exists>h \<in> set (g # gs). shortest_route h r')"
    using both by blast
qed

lemma router_run_cached: "router_run gs dr \<Longrightarrow> cached_shortest gs dr"
proof (induction rule: router_run.induct)
  case new_router
  then show ?case by (simp add: cached_shortest_def NewDijkstraRouter_def)
next
  case (calculate gs dr M g clk ord f t dr' r)
  then show ?case using cached_shortest_calculate(1) by blast
next
  case (invalidate gs dr)
  then show ?case by (simp add: cached_shortest_def)
next
  case (invalidate_peer gs dr cs p)
  then show ?case
    by (auto simp: cached_shortest_def cache_Get_InvalidatePeer split: option.splits if_splits)
qed

section \<open>Results\<close>

text \<open>
  Whatever calculations and invalidations a router has gone through, a route it returns
  for \<open>f\<close> and \<open>t\<close> leads from \<open>f\<close> to \<open>t\<close> and is a shortest route, with the right latency
  and hop count, of the graph it is asked about or of one it was asked about before: the
  cache never mixes up two requests and never serves anything else.
\<close>

lemma router_serves_shortest_routes:
  assumes "router_run gs dr" and "graph_ok M g"
    and "CalculateRoute clk ord g f t dr = Some (dr', Return r)"
  shows "FromPeerID r = f \<and> ToPeerID r = t \<and> (\<exists>h \<in> set (g # gs). shortest_route h r)"
  using cached_shortest_calculate(2) [OF router_run_cached [OF assms(1)] assms(2,3)] by blast

text \<open>
  Once a route has been calculated, the same request is answered with that very route
  until the time-to-live has passed, whatever the graph has become in the meantime: a new
  or faster edge does not reach the answers before the cache expires or is invalidated.
\<close>

lemma cached_route_outlives_graph_change:
  assumes "f \<noteq> t" and "CalculateRoute clk ord g f t dr = Some (dr', Return r)"
    and "cache_Get (clk 0) f t (dr_cache dr) = None"
    and "clk' 0 \<le> clk 2 + rc_ttl (dr_cache dr)"
  shows "CalculateRoute clk' ord' g' f t dr' = Some (dr', Return r)"
  using assms(2)
proof (cases rule: CalculateRoute_cases)
  case (found path l r')
  then have "cache_Get (clk' 0) f t (dr_cache dr') = Some r"
    using assms(4) by (simp add: cache_Get_Set)
  then show ?thesis using assms(1) by (simp add: CalculateRoute_def)
qed (use assms in auto)

text \<open>
  \<open>InvalidatePeer\<close> removes from the answers of the cache exactly the routes that pass
  through the peer, in whatever order the map is visited, and reports the number of entries
  it removed.
\<close>

lemma invalidate_peer_exact:
  assumes "cache_wf rc"
  shows "(cache_Get now f t (fst (cache_InvalidatePeer cs p rc)) =
     (case cache_Get now f t rc of None \<Rightarrow> None | Some r \<Rightarrow> if p \<in> set (Path r) then None else Some r))
    \<and> snd (cache_InvalidatePeer cs p rc)
        = length (filter (\<lambda>e. p \<in> set (Path (cr_Route (snd e)))) (rc_routes rc))"
proof -
  have "mset (filter P (gm_range cs m)) = mset (filter P m)" for P and m :: "(string, cached_route) gomap"
    by (simp add: mset_filter)
  then have "length (filter P (gm_range cs m)) = length (filter P m)" for P and m :: "(string, cached_route) gomap"
    by (metis size_mset)
  then show ?thesis
    using cache_Get_InvalidatePeer [OF assms]
    by (simp add: cache_InvalidatePeer_def Let_def collect_keys_eq)
qed

end
