(* ===== verification/Messages.thy ===== *)
theory Messages
  imports Go_Prelude
begin

text \<open>
  The messages of the two gRPC services, with the data fields of the Go structs that
  \<open>protoc\<close> generated (\<open>proto/p2p.pb.go\<close>). The bookkeeping fields of the protobuf runtime and
  the wire format, which live in that library, are not modelled. A nil pointer to a message
  is not a value here: the runtime hands every handler an allocated message.
\<close>

record peer_info =
  pi_PeerId :: i32
  pi_Address :: string
  pi_LastSeen :: int

record route_cache_entry =
  rce_FromPeerId :: i32
  rce_ToPeerId :: i32
  rce_Path :: "i32 list"
  rce_TotalLatencyMs :: int
  rce_Hops :: i32
  rce_CachedAt :: int
  rce_TtlSeconds :: i32

record pb_network_node =
  pnn_Id :: i32
  pnn_Address :: string
  pnn_LastSeen :: int

record pb_network_edge =
  pne_FromId :: i32
  pne_ToId :: i32
  pne_LatencyMs :: int

record chunk_info =
  ci_FileId :: string
  ci_ChunkIndex :: i32
  ci_ChunkSize :: i32
  ci_Sha256Hash :: string

record route_request =
  rrq_FromPeerId :: i32
  rrq_ToPeerId :: i32

record route_response =
  rrs_Path :: "i32 list"
  rrs_TotalLatencyMs :: int
  rrs_Hops :: i32

record get_cache_request =
  gcq_RequesterId :: i32

record get_cache_response =
  gcs_Entries :: "route_cache_entry list"

datatype invalidate_cache_request = InvalidateCacheRequest

record invalidate_cache_response =
  ics_Success :: bool
  ics_EntriesCleared :: i32

record register_request =
  rgq_PeerId :: i32
  rgq_Address :: string

record register_response =
  rgs_Success :: bool
  rgs_Peers :: "peer_info list"

record get_peers_request =
  gpq_Limit :: i32

record get_peers_response =
  gps_Peers :: "peer_info list"

record ping_request =
  pgq_SenderId :: i32
  pgq_Timestamp :: int

record ping_response =
  pgs_ResponderId :: i32
  pgs_Timestamp :: int

record graph_request =
  grq_RequesterId :: i32

record graph_response =
  grs_Nodes :: "pb_network_node list"
  grs_Edges :: "pb_network_edge list"

record new_peer_notification =
  npn_PeerId :: i32
  npn_Address :: string

record notify_response =
  nrs_Acknowledged :: bool

record has_chunk_request =
  hcq_FileId :: string
  hcq_ChunkIndex :: i32

record has_chunk_response =
  hcs_MightHave :: bool
  hcs_Confirmed :: bool

datatype get_bloom_filter_request = GetBloomFilterRequest

record get_bloom_filter_response =
  gbs_BitArray :: bytes
  gbs_NumBits :: i32
  gbs_NumHashFunctions :: i32
  gbs_ItemsAdded :: i32

record download_chunk_request =
  dcq_FileId :: string
  dcq_ChunkIndex :: i32

record download_chunk_response =
  dcs_Data :: bytes
  dcs_Sha256Hash :: string
  dcs_Success :: bool
  dcs_ErrorMessage :: string

record upload_file_request =
  ufq_FileName :: string
  ufq_FileData :: bytes

record upload_file_response =
  ufs_FileId :: string
  ufs_TotalChunks :: i32
  ufs_Chunks :: "chunk_info list"

text \<open>\<open>Unix\<close> seconds of a time in nanoseconds.\<close>

definition Unix :: "int \<Rightarrow> int" where
  "Unix t = t div 1000000000"

end
