(* ===== verification/Graph_Analyzer.thy ===== *)
theory Graph_Analyzer
  imports Go_Format Dijkstra_Correct
begin

text \<open>
  The graph analyzer (\<open>internal/routing/graph.go\<close>): aggregate statistics of a graph, the peers
  whose edges are slow on average, and the formatted report. Counters are kept at their
  width (\<open>int32\<close> counts, \<open>int64\<close> sums); the density is a float, rounded by \<open>fl\<close>.
\<close>

section \<open>Definitions\<close>

text \<open>
  The analyzer points to a router that it does not change; the record holds the state of that
  router at the time of a call.
\<close>

record graph_analyzer =
  ga_router :: dijkstra_router

definition NewGraphAnalyzer :: "dijkstra_router \<Rightarrow> graph_analyzer" where
  "NewGraphAnalyzer router = \<lparr>ga_router = router\<rparr>"

record network_stats =
  ns_TotalPeers :: i32
  ns_TotalEdges :: i32
  ns_AvgLatency :: int
  ns_MaxLatency :: int
  ns_MinLatency :: int
  ns_NetworkDensity :: real

text \<open>The loop over the edges: sum, maximum and minimum of the latencies.\<close>

fun latency_loop :: "graph_edge list \<Rightarrow> int \<Rightarrow> int \<Rightarrow> int \<Rightarrow> int \<times> int \<times> int" where
  "latency_loop [] acc mx mn = (acc, mx, mn)"
| "latency_loop (e # es) acc mx mn =
     latency_loop es (wrap64 (acc + ge_LatencyMs e))
       (if ge_LatencyMs e > mx then ge_LatencyMs e else mx)
       (if ge_LatencyMs e < mn then ge_LatencyMs e else mn)"

definition AnalyzeNetwork :: "(real \<Rightarrow> real) \<Rightarrow> graph \<Rightarrow> network_stats" where
  "AnalyzeNetwork fl g =
     (let stats = \<lparr>ns_TotalPeers = word_of_nat (length (GetNodeList g)),
                   ns_TotalEdges = word_of_nat (length (GetEdgeList g)),
                   ns_AvgLatency = 0, ns_MaxLatency = 0, ns_MinLatency = max_int64, ns_NetworkDensity = 0\<rparr>
      in if ns_TotalEdges stats = 0 then stats\<lparr>ns_MinLatency := 0\<rparr>
         else
           let (totalLatency, mx, mn) =
                 latency_loop (GetEdgeList g) 0 (ns_MaxLatency stats) (ns_MinLatency stats);
               stats = stats\<lparr>ns_MaxLatency := mx, ns_MinLatency := mn,
                             ns_AvgLatency := wrap64 (go_quot totalLatency (sint (ns_TotalEdges stats)))\<rparr>;
               possibleEdges = wrap64 (sint (ns_TotalPeers stats) * sint (ns_TotalPeers stats - 1))
           in if possibleEdges > 0
              then stats\<lparr>ns_NetworkDensity :=
                     fl (fl (fl (of_int (sint (ns_TotalEdges stats))) / fl (of_int possibleEdges)) * 100)\<rparr>
              else stats)"

text \<open>One edge counts for both of its ends (twice for a loop).\<close>

definition count_end ::
  "int \<Rightarrow> i32 \<Rightarrow> (i32, int) gomap \<times> (i32, i32) gomap \<Rightarrow> (i32, int) gomap \<times> (i32, i32) gomap" where
  "count_end latency p acc =
     (gm_set p (wrap64 (gm_get0 0 (fst acc) p + latency)) (fst acc), gm_set p (gm_get0 0 (snd acc) p + 1) (snd acc))"

fun degree_loop ::
  "graph_edge list \<Rightarrow> (i32, int) gomap \<times> (i32, i32) gomap \<Rightarrow> (i32, int) gomap \<times> (i32, i32) gomap" where
  "degree_loop [] acc = acc"
| "degree_loop (e # es) acc =
     degree_loop es (count_end (ge_LatencyMs e) (ge_To e) (count_end (ge_LatencyMs e) (ge_From e) acc))"

fun bottleneck_loop :: "int \<Rightarrow> (i32, i32) gomap \<Rightarrow> (i32 \<times> int) list \<Rightarrow> i32 list \<Rightarrow> i32 list" where
  "bottleneck_loop thresholdMs peerDegree [] bottlenecks = bottlenecks"
| "bottleneck_loop thresholdMs peerDegree ((peerID, totalLat) # es) bottlenecks =
     (let degree = gm_get0 0 peerDegree peerID
      in bottleneck_loop thresholdMs peerDegree es
           (if sint degree > 0 \<and> go_quot totalLat (sint degree) > thresholdMs
            then bottlenecks @ [peerID] else bottlenecks))"

definition FindBottlenecks :: "choices \<Rightarrow> graph \<Rightarrow> int \<Rightarrow> i32 list" where
  "FindBottlenecks cs g thresholdMs =
     (let (peerTotalLatency, peerDegree) = degree_loop (GetEdgeList g) ([], [])
      in bottleneck_loop thresholdMs peerDegree (gm_range cs peerTotalLatency) [])"

section \<open>The report\<close>

definition GetNetworkMetrics :: "(real \<Rightarrow> real) \<Rightarrow> graph \<Rightarrow> graph_analyzer \<Rightarrow> string" where
  "GetNetworkMetrics fl g ga =
     (let stats = AnalyzeNetwork fl g in
      newline @ box_title ''       NETWORK METRICS              '' @ newline
      @ ''  Total Peers:        '' @ fmt_d (sint (ns_TotalPeers stats)) @ newline
      @ ''  Total Connections:  '' @ fmt_d (sint (ns_TotalEdges stats)) @ newline
      @ ''  Network Density:    '' @ fmt_f 2 (ns_NetworkDensity stats) @ ''%'' @ newline
      @ ''  Avg Latency:        '' @ fmt_d (ns_AvgLatency stats) @ ''ms'' @ newline
      @ ''  Min Latency:        '' @ fmt_d (ns_MinLatency stats) @ ''ms'' @ newline
      @ ''  Max Latency:        '' @ fmt_d (ns_MaxLatency stats) @ ''ms'' @ newline
      @ ''  Route Cache Size:   '' @ fmt_d (int (cache_Size (dr_cache (ga_router ga)))) @ newline)"

section \<open>The loops\<close>

text \<open>Sums of non-negative latencies that stay in the range of \<open>int64\<close>.\<close>

definition latencies_fit :: "graph_edge list \<Rightarrow> bool" where
  "latencies_fit es \<longleftrightarrow> (\<forall>e \<in> set es. 0 \<le> ge_LatencyMs e)
     \<and> 2 * (\<Sum>e\<leftarrow>es. ge_LatencyMs e) \<le> max_int64 \<and> length es < 1073741824"

lemma latency_loop_eq:
  assumes "\<forall>e \<in> set es. 0 \<le> ge_LatencyMs e" and "0 \<le> acc"
    and "acc + (\<Sum>e\<leftarrow>es. ge_LatencyMs e) \<le> max_int64"
  shows "latency_loop es acc mx mn =
    (acc + (\<Sum>e\<leftarrow>es. ge_LatencyMs e), fold max (map ge_LatencyMs es) mx, fold min (map ge_LatencyMs es) mn)"
  using assms
proof (induction es arbitrary: acc mx mn)
  case (Cons e es)
  have "0 \<le> (\<Sum>e\<leftarrow>es. ge_LatencyMs e)" using Cons.prems(1) by (intro sum_list_nonneg) auto
  then have w: "wrap64 (acc + ge_LatencyMs e) = acc + ge_LatencyMs e"
    using Cons.prems by (intro wrap64_id) auto
  have "acc + ge_LatencyMs e + (\<Sum>e\<leftarrow>es. ge_LatencyMs e) \<le> max_int64" using Cons.prems(3) by simp
  then have "latency_loop es (acc + ge_LatencyMs e) mx' mn' =
      (acc + ge_LatencyMs e + (\<Sum>e\<leftarrow>es. ge_LatencyMs e), fold max (map ge_LatencyMs es) mx',
       fold min (map ge_LatencyMs es) mn')" for mx' mn'
    using Cons.prems(1,2) by (intro Cons.IH) auto
  moreover have "(if ge_LatencyMs e > mx then ge_LatencyMs e else mx) = max (ge_LatencyMs e) mx"
    "(if ge_LatencyMs e < mn then ge_LatencyMs e else mn) = min (ge_LatencyMs e) mn" by auto
  ultimately show ?case by (simp only: latency_loop.simps w) simp
qed simp

text \<open>What an edge adds to the total of a peer, and to its degree.\<close>

definition peer_latency :: "i32 \<Rightarrow> graph_edge list \<Rightarrow> int" where
  "peer_latency p es = (\<Sum>e\<leftarrow>es. (if ge_From e = p then ge_LatencyMs e else 0) + (if ge_To e = p then ge_LatencyMs e else 0))"

definition peer_degree :: "i32 \<Rightarrow> graph_edge list \<Rightarrow> nat" where
  "peer_degree p es = (\<Sum>e\<leftarrow>es. (if ge_From e = p then 1 else 0) + (if ge_To e = p then 1 else 0))"

lemma peer_latency_bounds:
  assumes "\<forall>e \<in> set es. 0 \<le> ge_LatencyMs e"
  shows "0 \<le> peer_latency p es" and "peer_latency p es \<le> 2 * (\<Sum>e\<leftarrow>es. ge_LatencyMs e)"
  using assms by (induction es) (auto simp: peer_latency_def)

lemma peer_degree_bound: "peer_degree p es \<le> 2 * length es"
  by (induction es) (auto simp: peer_degree_def)

definition edge_ends :: "graph_edge list \<Rightarrow> i32 set" where
  "edge_ends es = ge_From ` set es \<union> ge_To ` set es"

lemma peer_degree_pos: "p \<in> edge_ends es \<Longrightarrow> 0 < peer_degree p es"
  by (induction es) (auto simp: edge_ends_def peer_degree_def)

lemma degree_loop_degrees:
  "gm_get0 0 (snd (degree_loop es acc)) p = gm_get0 0 (snd acc) p + word_of_nat (peer_degree p es)"
  by (induction es acc rule: degree_loop.induct) (auto simp: peer_degree_def count_end_def gm_simps)

lemma degree_loop_keys: "fst ` set (fst (degree_loop es acc)) = fst ` set (fst acc) \<union> edge_ends es"
  by (induction es acc rule: degree_loop.induct) (auto simp: count_end_def edge_ends_def)

lemma degree_loop_wf: "gm_wf (fst acc) \<Longrightarrow> gm_wf (fst (degree_loop es acc))"
  by (induction es acc rule: degree_loop.induct) (auto simp: count_end_def)

lemma degree_loop_latencies:
  assumes "\<forall>e \<in> set es. 0 \<le> ge_LatencyMs e"
    and "\<forall>p. 0 \<le> gm_get0 0 (fst acc) p \<and> gm_get0 0 (fst acc) p + peer_latency p es \<le> max_int64"
  shows "gm_get0 0 (fst (degree_loop es acc)) p = gm_get0 0 (fst acc) p + peer_latency p es"
  using assms
proof (induction es acc rule: degree_loop.induct)
  case (2 e es acc)
  let ?l = "ge_LatencyMs e" and ?f = "ge_From e" and ?t = "ge_To e"
  let ?acc = "count_end ?l ?t (count_end ?l ?f acc)"
  have l: "0 \<le> ?l" and es: "\<forall>e \<in> set es. 0 \<le> ge_LatencyMs e" using "2.prems"(1) by auto
  have split: "peer_latency q (e # es) = (if ?f = q then ?l else 0) + (if ?t = q then ?l else 0) + peer_latency q es" for q
    by (simp add: peer_latency_def)
  have bound: "0 \<le> gm_get0 0 (fst acc) q
      \<and> gm_get0 0 (fst acc) q + (if ?f = q then ?l else 0) + (if ?t = q then ?l else 0) + peer_latency q es \<le> max_int64" for q
    using "2.prems"(2) [rule_format, of q] split [of q] by linarith
  have w: "wrap64 (gm_get0 0 (fst acc) ?f + ?l) = gm_get0 0 (fst acc) ?f + ?l"
    "wrap64 (gm_get0 0 (fst acc) ?t + ?l) = gm_get0 0 (fst acc) ?t + ?l"
    "?f = ?t \<Longrightarrow> wrap64 (gm_get0 0 (fst acc) ?t + ?l + ?l) = gm_get0 0 (fst acc) ?t + ?l + ?l"
    using bound [of ?f] bound [of ?t] l peer_latency_bounds(1) [OF es, of ?f] peer_latency_bounds(1) [OF es, of ?t]
    by (auto intro!: wrap64_id split: if_splits)
  have acc: "gm_get0 0 (fst ?acc) q = gm_get0 0 (fst acc) q + (if ?f = q then ?l else 0) + (if ?t = q then ?l else 0)" for q
    using w by (auto simp: count_end_def gm_simps)
  have "\<forall>q. 0 \<le> gm_get0 0 (fst ?acc) q \<and> gm_get0 0 (fst ?acc) q + peer_latency q es \<le> max_int64"
    using bound l by (simp add: acc)
  from "2.IH" [OF es this] show ?case by (simp add: acc split)
qed (simp add: peer_latency_def)

lemma bottleneck_loop_eq:
  "bottleneck_loop thr deg es acc = acc @ map fst (filter (\<lambda>(p, t). sint (gm_get0 0 deg p) > 0
     \<and> go_quot t (sint (gm_get0 0 deg p)) > thr) es)"
  by (induction thr deg es acc rule: bottleneck_loop.induct) (auto simp: Let_def)

lemma fold_max_Max: "fold max xs (a :: int) = Max (insert a (set xs))"
  by (simp add: Max.set_eq_fold [symmetric])

lemma fold_min_Min: "fold min xs (a :: int) = Min (insert a (set xs))"
  by (simp add: Min.set_eq_fold [symmetric])

lemma latencies_fit_sum:
  assumes "latencies_fit es"
  shows "0 \<le> (\<Sum>e\<leftarrow>es. ge_LatencyMs e)" and "(\<Sum>e\<leftarrow>es. ge_LatencyMs e) \<le> max_int64"
    and "e \<in> set es \<Longrightarrow> ge_LatencyMs e \<le> max_int64"
proof -
  have nn: "\<forall>e \<in> set es. 0 \<le> ge_LatencyMs e" using assms by (simp add: latencies_fit_def)
  then show s: "0 \<le> (\<Sum>e\<leftarrow>es. ge_LatencyMs e)" by (intro sum_list_nonneg) auto
  show le: "(\<Sum>e\<leftarrow>es. ge_LatencyMs e) \<le> max_int64" using assms s by (simp add: latencies_fit_def)
  assume "e \<in> set es"
  then have "ge_LatencyMs e \<le> (\<Sum>e\<leftarrow>es. ge_LatencyMs e)" using nn by (intro member_le_sum_list) auto
  with le show "ge_LatencyMs e \<le> max_int64" by simp
qed

section \<open>Results\<close>

text \<open>
  C34: The statistics of a graph with edges, whose latencies are non-negative and do not
  overflow when added twice, are what they are called: the numbers of nodes and edges, the
  greatest and the least latency, and the truncated mean, which lies between the two.
\<close>

theorem network_stats_correct:
  assumes "latencies_fit (GetEdgeList g)" and "GetEdgeList g \<noteq> []" and "length (GetNodeList g) < 2147483648"
  shows "let s = AnalyzeNetwork fl g; ls = map ge_LatencyMs (GetEdgeList g)
    in sint (ns_TotalPeers s) = int (length (GetNodeList g)) \<and> sint (ns_TotalEdges s) = int (length ls)
      \<and> ns_MaxLatency s = Max (set ls) \<and> ns_MinLatency s = Min (set ls)
      \<and> ns_AvgLatency s = sum_list ls div int (length ls)
      \<and> ns_MinLatency s \<le> ns_AvgLatency s \<and> ns_AvgLatency s \<le> ns_MaxLatency s"
proof -
  let ?es = "GetEdgeList g" and ?s = "AnalyzeNetwork fl g"
  let ?ls = "map ge_LatencyMs ?es" and ?n = "int (length ?es)"
  note sums = latencies_fit_sum [OF assms(1)]
  have nn: "\<forall>e \<in> set ?es. 0 \<le> ge_LatencyMs e" and small: "length ?es < 1073741824"
    using assms(1) by (simp_all add: latencies_fit_def)
  have n: "sint (word_of_nat (length ?es) :: i32) = ?n" "0 < ?n"
    using small assms(2) by (simp_all add: sint_small_nat)
  then have nz: "(word_of_nat (length ?es) :: i32) \<noteq> 0" by auto
  have ne: "set ?ls \<noteq> {}" "finite (set ?ls)" using assms(2) by auto
  have mx: "fold max ?ls 0 = Max (set ?ls)"
    using ne nn by (simp add: fold_max_Max del: set_map) (auto simp: max_def Max_ge_iff intro: antisym)
  obtain e where e: "e \<in> set ?es" using assms(2) by (cases ?es) auto
  then have "Min (set ?ls) \<le> max_int64" using sums(3) [OF e] by (auto intro!: Min.coboundedI [THEN order_trans])
  then have mn: "fold min ?ls max_int64 = Min (set ?ls)"
    using ne by (simp add: fold_min_Min del: set_map)
  have ineq: "?n * Min (set ?ls) \<le> sum_list ?ls" "sum_list ?ls \<le> ?n * Max (set ?ls)"
    using sum_list_mono [of ?es "\<lambda>_. Min (set ?ls)" ge_LatencyMs] sum_list_mono [of ?es ge_LatencyMs "\<lambda>_. Max (set ?ls)"]
    by (simp_all add: sum_list_triv)
  then have between: "Min (set ?ls) \<le> sum_list ?ls div ?n" "sum_list ?ls div ?n \<le> Max (set ?ls)"
    using zdiv_mono1 [OF ineq(1) n(2)] zdiv_mono1 [OF ineq(2) n(2)] n(2) by simp_all
  have "Max (set ?ls) \<le> max_int64" using ne sums(3) by auto
  with between(2) have avg: "sum_list ?ls div ?n \<le> max_int64" by linarith
  have avg0: "0 \<le> sum_list ?ls div ?n" using sums(1) n(2) by (simp add: pos_imp_zdiv_nonneg_iff)
  show ?thesis
    using nz avg avg0 n mx mn between assms(3) latency_loop_eq [OF nn, of 0] sums
    by (simp add: AnalyzeNetwork_def Let_def go_quot_nonneg wrap64_id sint_small_nat)
qed

definition star_graph :: graph where
  "star_graph = \<lparr>GetNodeList = [\<lparr>gn_ID = 1, gn_Address = [], gn_LastSeen = 0\<rparr>, \<lparr>gn_ID = 2, gn_Address = [], gn_LastSeen = 0\<rparr>],
     GetEdgeList = [\<lparr>ge_From = 1, ge_To = 2, ge_LatencyMs = 10\<rparr>, \<lparr>ge_From = 1, ge_To = 3, ge_LatencyMs = 30\<rparr>]\<rparr>"

theorem network_stats_correct_witness:
  "ns_AvgLatency (AnalyzeNetwork (\<lambda>x. x) star_graph) = 20"
  using network_stats_correct [of star_graph "\<lambda>x. x"]
  by (simp add: star_graph_def latencies_fit_def max_int64_def Let_def)

text \<open>
  The bottlenecks are exactly the peers at an end of some edge whose truncated average
  latency over all their edge ends exceeds the threshold, each reported once; the iteration
  order of the map only changes the order of the report.
\<close>

lemma bottlenecks_exact:
  assumes "latencies_fit (GetEdgeList g)"
  shows "distinct (FindBottlenecks cs g thr) \<and> set (FindBottlenecks cs g thr) =
    {p \<in> edge_ends (GetEdgeList g). peer_latency p (GetEdgeList g) div int (peer_degree p (GetEdgeList g)) > thr}"
proof -
  let ?es = "GetEdgeList g" and ?r = "degree_loop (GetEdgeList g) ([], [])"
  have nn: "\<forall>e \<in> set ?es. 0 \<le> ge_LatencyMs e" and small: "length ?es < 1073741824"
    and fit: "2 * (\<Sum>e\<leftarrow>?es. ge_LatencyMs e) \<le> max_int64" using assms by (simp_all add: latencies_fit_def)
  have wf: "gm_wf (fst ?r)" using degree_loop_wf [of "([], [])"] by simp
  have keys: "fst ` set (fst ?r) = edge_ends ?es" using degree_loop_keys [of ?es "([], [])"] by simp
  have lat: "gm_get0 0 (fst ?r) p = peer_latency p ?es" for p
    using degree_loop_latencies [OF nn, of "([], [])" p] peer_latency_bounds [OF nn] fit
    by (auto simp: gm_simps intro: order_trans)
  have "sint (word_of_nat (peer_degree p ?es) :: i32) = int (peer_degree p ?es)" for p
    using peer_degree_bound [of p ?es] small by (intro sint_small_nat) simp
  then have deg: "sint (gm_get0 0 (snd ?r) p) = int (peer_degree p ?es)" for p
    using degree_loop_degrees [of ?es "([], [])" p] by (simp add: gm_simps)
  note pos = peer_degree_pos [of _ ?es]
  have entry: "(p, t) \<in> set (fst ?r) \<longleftrightarrow> p \<in> edge_ends ?es \<and> t = peer_latency p ?es" for p t
  proof (cases "gm_get (fst ?r) p")
    case None
    then show ?thesis using wf keys by (metis gm_get_None_iff gm_get_iff option.distinct(1))
  next
    case (Some v)
    then have "p \<in> edge_ends ?es" using keys gm_get_SomeD [OF Some] by force
    then show ?thesis using Some lat [of p] wf by (auto simp: gm_get_iff [symmetric] gm_get0_def)
  qed
  have bl: "FindBottlenecks cs g thr = map fst (filter (\<lambda>(p, t). sint (gm_get0 0 (snd ?r) p) > 0
     \<and> go_quot t (sint (gm_get0 0 (snd ?r) p)) > thr) (gm_range cs (fst ?r)))"
    by (simp add: FindBottlenecks_def bottleneck_loop_eq split: prod.split)
  have "distinct (map fst (gm_range cs (fst ?r)))" using wf gm_wf_range [of cs "fst ?r"] by (simp add: gm_wf_def)
  then have "distinct (FindBottlenecks cs g thr)" unfolding bl by (rule distinct_map_filter)
  moreover have "set (FindBottlenecks cs g thr) =
    {p \<in> edge_ends ?es. peer_latency p ?es div int (peer_degree p ?es) > thr}"
    using pos peer_latency_bounds(1) [OF nn]
    by (auto simp: bl entry deg go_quot_nonneg image_iff Bex_def)
  ultimately show ?thesis by blast
qed

end
