(* ===== verification/Peer_Node.thy ===== *)
theory Peer_Node
  imports Network_Graph Storage_Results Router Messages Graph_Analyzer
begin

text \<open>
  A peer (\<open>internal/peer/peer.go\<close>): its graph, router, storage and connections; registration
  with the bootstrap server; the concurrent connection of its goroutines to the peers it was
  told about; the latency measurement; the printed and the serialized graph. What gRPC does
  (opening a connection, a remote call, its duration) is an argument. The type of client
  connections is a parameter.
\<close>

section \<open>The peer\<close>

record 'c peer_node =
  pn_ID :: i32
  pn_Port :: int
  pn_Address :: string
  pn_BootstrapAddr :: string
  pn_Graph :: network_graph
  pn_Router :: dijkstra_router
  pn_Storage :: storage_manager
  pn_connections :: "(i32, 'c) gomap"

text \<open>A failure to open the storage directory ends the process: the \<open>Fail\<close> of \<open>log.Fatalf\<close>.\<close>

definition NewPeerNode ::
  "(real \<Rightarrow> real) \<Rightarrow> i32 \<Rightarrow> int \<Rightarrow> string \<Rightarrow> file_system \<Rightarrow> (error, 'c peer_node) outcome" where
  "NewPeerNode fl peerID port bootstrapAddr fs =
     (let storageDir = ''./data/peer-'' @ fmt_d (sint peerID)
      in case NewStorageManager fl peerID storageDir fs of
           Fail e \<Rightarrow> Fail (''Peer-'' @ fmt_d (sint peerID) @ '': failed to init storage: '' @ e)
         | Panic q \<Rightarrow> Panic q
         | Return storageMgr \<Rightarrow>
             Return \<lparr>pn_ID = peerID, pn_Port = port, pn_Address = ''localhost:'' @ fmt_d port,
                     pn_BootstrapAddr = bootstrapAddr, pn_Graph = NewNetworkGraph,
                     pn_Router = NewDijkstraRouter, pn_Storage = storageMgr, pn_connections = []\<rparr>)"

text \<open>Route calculation over the peer's own graph, from itself; \<open>cn\<close>, \<open>ce\<close> order the snapshots.\<close>

definition peer_CalculateRoute ::
  "(nat \<Rightarrow> int) \<Rightarrow> (nat \<Rightarrow> choices) \<Rightarrow> choices \<Rightarrow> choices \<Rightarrow> i32 \<Rightarrow> 'c peer_node
   \<Rightarrow> ('c peer_node \<times> (error, route) outcome) option" where
  "peer_CalculateRoute clk ord cn ce toID p =
     map_option (\<lambda>(dr, r). (p\<lparr>pn_Router := dr\<rparr>, r))
       (CalculateRoute clk ord (routing_view cn ce (pn_Graph p)) (pn_ID p) toID (pn_Router p))"

text \<open>The field \<open>Analyzer\<close> of the peer: created with a pointer to the peer's router.\<close>

definition pn_Analyzer :: "'c peer_node \<Rightarrow> graph_analyzer" where
  "pn_Analyzer p = NewGraphAnalyzer (pn_Router p)"

definition GetNetworkStats :: "(real \<Rightarrow> real) \<Rightarrow> choices \<Rightarrow> choices \<Rightarrow> 'c peer_node \<Rightarrow> network_stats" where
  "GetNetworkStats fl cn ce p = AnalyzeNetwork fl (routing_view cn ce (pn_Graph p))"

definition RegisterWithBootstrap ::
  "int \<Rightarrow> (string \<Rightarrow> error + 'c) \<Rightarrow> ('c \<Rightarrow> register_request \<Rightarrow> error + register_response) \<Rightarrow> 'c peer_node
   \<Rightarrow> 'c peer_node \<times> (error, peer_info list) outcome" where
  "RegisterWithBootstrap now dial registerPeer p =
     (case dial (pn_BootstrapAddr p) of
        Inl e \<Rightarrow> (p, Fail (''failed to connect to bootstrap at '' @ pn_BootstrapAddr p @ '': '' @ e))
      | Inr conn \<Rightarrow>
          (case registerPeer conn \<lparr>rgq_PeerId = pn_ID p, rgq_Address = pn_Address p\<rparr> of
             Inl e \<Rightarrow> (p, Fail (''failed to register with bootstrap: '' @ e))
           | Inr resp \<Rightarrow>
               if \<not> rgs_Success resp then (p, Fail ''bootstrap registration failed'')
               else (p\<lparr>pn_Graph := AddNode now (pn_ID p) (pn_Address p) (pn_Graph p)\<rparr>,
                     Return (rgs_Peers resp))))"

section \<open>Latency measurement\<close>

text \<open>
  \<open>ping i\<close> is what the \<open>i\<close>-th ping came to: an error, or the elapsed time in nanoseconds, of
  which \<open>Milliseconds\<close> keeps the whole milliseconds.
\<close>

definition Milliseconds :: "int \<Rightarrow> int" where
  "Milliseconds d = go_quot d 1000000"

fun ping_loop :: "(nat \<Rightarrow> error + int) \<Rightarrow> nat list \<Rightarrow> int \<Rightarrow> error + int" where
  "ping_loop ping [] totalLatency = Inr totalLatency"
| "ping_loop ping (i # is) totalLatency =
     (case ping i of
        Inl e \<Rightarrow> Inl (''ping failed: '' @ e)
      | Inr elapsed \<Rightarrow> ping_loop ping is (wrap64 (totalLatency + Milliseconds elapsed)))"

definition measureLatency :: "(nat \<Rightarrow> error + int) \<Rightarrow> error + int" where
  "measureLatency ping =
     (let numPings = 3 in
      case ping_loop ping [0..<numPings] 0 of
        Inl e \<Rightarrow> Inl e
      | Inr totalLatency \<Rightarrow>
          let avgLatency = go_quot totalLatency (int numPings)
          in Inr (if avgLatency = 0 then 1 else avgLatency))"

section \<open>Connecting to peers\<close>

text \<open>
  One goroutine per peer, by the actions it has left. Each action on the shared state is
  atomic (it holds a lock); everything between two actions is local. A finished goroutine
  remembers how it ended.
\<close>

datatype task_end = Dial_Failed | No_Latency | Linked int

datatype 'c task_pc =
    Dialing
  | Dialed 'c
  | Connected 'c
  | Unmeasured
  | Measured int
  | Node_Added int
  | Finished task_end

text \<open>What the environment answers during one action.\<close>

record 'c task_input =
  ti_dial :: "string \<Rightarrow> error + 'c"
  ti_ping :: "'c \<Rightarrow> nat \<Rightarrow> error + int"
  ti_now :: int

fun task_step :: "'c task_input \<Rightarrow> peer_info \<Rightarrow> 'c task_pc \<Rightarrow> 'c peer_node \<Rightarrow> 'c task_pc \<times> 'c peer_node" where
  "task_step inp info Dialing p =
     (case ti_dial inp (pi_Address info) of
        Inl _ \<Rightarrow> (Finished Dial_Failed, p)
      | Inr conn \<Rightarrow> (Dialed conn, p))"
| "task_step inp info (Dialed conn) p =
     (Connected conn, p\<lparr>pn_connections := gm_set (pi_PeerId info) conn (pn_connections p)\<rparr>)"
| "task_step inp info (Connected conn) p =
     (case measureLatency (ti_ping inp conn) of
        Inl _ \<Rightarrow> (Unmeasured, p)
      | Inr latency \<Rightarrow> (Measured latency, p))"
| "task_step inp info Unmeasured p =
     (Finished No_Latency,
      p\<lparr>pn_Graph := AddNode (ti_now inp) (pi_PeerId info) (pi_Address info) (pn_Graph p)\<rparr>)"
| "task_step inp info (Measured latency) p =
     (Node_Added latency,
      p\<lparr>pn_Graph := AddNode (ti_now inp) (pi_PeerId info) (pi_Address info) (pn_Graph p)\<rparr>)"
| "task_step inp info (Node_Added latency) p =
     (Finished (Linked latency), p\<lparr>pn_Graph := AddEdge (pn_ID p) (pi_PeerId info) latency (pn_Graph p)\<rparr>)"
| "task_step inp info (Finished r) p = (Finished r, p)"

text \<open>What an action writes to the standard output.\<close>

definition peer_tag :: "'c peer_node \<Rightarrow> string" where
  "peer_tag p = ''Peer-'' @ fmt_d (sint (pn_ID p)) @ '': ''"

definition connected_line :: "'c peer_node \<Rightarrow> i32 \<Rightarrow> int \<Rightarrow> string" where
  "connected_line p t latency =
     peer_tag p @ ''Connected to peer-'' @ fmt_d (sint t) @ '' (latency: '' @ fmt_d latency @ ''ms)'' @ newline"

fun task_output :: "'c task_input \<Rightarrow> peer_info \<Rightarrow> 'c task_pc \<Rightarrow> 'c peer_node \<Rightarrow> string" where
  "task_output inp info Dialing p =
     (case ti_dial inp (pi_Address info) of
        Inl e \<Rightarrow> peer_tag p @ ''Failed to connect to peer-'' @ fmt_d (sint (pi_PeerId info)) @ '' at ''
                 @ pi_Address info @ '': '' @ e @ newline
      | Inr conn \<Rightarrow> [])"
| "task_output inp info (Connected conn) p =
     (case measureLatency (ti_ping inp conn) of
        Inl e \<Rightarrow> peer_tag p @ ''Failed to measure latency to peer-'' @ fmt_d (sint (pi_PeerId info)) @ '': '' @ e @ newline
      | Inr latency \<Rightarrow> [])"
| "task_output inp info (Node_Added latency) p = connected_line p (pi_PeerId info) latency"
| "task_output inp info _ p = []"

text \<open>The goroutines that \<open>ConnectToPeers\<close> starts: one for each peer other than itself.\<close>

fun spawn_tasks :: "i32 \<Rightarrow> peer_info list \<Rightarrow> (peer_info \<times> 'c task_pc) list" where
  "spawn_tasks self [] = []"
| "spawn_tasks self (info # infos) =
     (if pi_PeerId info = self then spawn_tasks self infos else (info, Dialing) # spawn_tasks self infos)"

text \<open>
  The steps of \<open>ConnectToPeers\<close> under any scheduler: some unfinished goroutine acts, or the
  gRPC server of the peer, which is already running, adds a node it was notified of.
\<close>

type_synonym 'c connect_state = "'c peer_node \<times> (peer_info \<times> 'c task_pc) list"

text \<open>
  A ping is abandoned after three seconds, and the clock it is timed with does not run
  backwards: each ping takes between nothing and a minute, with ample room.
\<close>

definition timely :: "'c task_input \<Rightarrow> bool" where
  "timely inp \<longleftrightarrow> (\<forall>conn i d. ti_ping inp conn i = Inr d \<longrightarrow> 0 \<le> d \<and> d \<le> 60000000000)"

inductive connect_step :: "'c connect_state \<Rightarrow> 'c connect_state \<Rightarrow> bool" where
  run_task: "i < length ts \<Longrightarrow> ts ! i = (info, pc) \<Longrightarrow> (\<forall>r. pc \<noteq> Finished r)
    \<Longrightarrow> timely inp \<Longrightarrow> task_step inp info pc p = (pc', p') \<Longrightarrow> connect_step (p, ts) (p', ts[i := (info, pc')])"
| notified: "connect_step (p, ts) (p\<lparr>pn_Graph := AddNode now n a (pn_Graph p)\<rparr>, ts)"

inductive connect_steps :: "'c connect_state \<Rightarrow> 'c connect_state \<Rightarrow> bool" where
  none: "connect_steps s s"
| more: "connect_steps s s' \<Longrightarrow> connect_step s' s'' \<Longrightarrow> connect_steps s s''"

inductive_cases connect_stepE: "connect_step s s'"

definition all_finished :: "(peer_info \<times> 'c task_pc) list \<Rightarrow> bool" where
  "all_finished ts \<longleftrightarrow> (\<forall>(info, pc) \<in> set ts. \<exists>r. pc = Finished r)"

text \<open>\<open>wg.Wait\<close> returns when every goroutine has finished: what a call may leave behind.\<close>

definition ConnectToPeers :: "peer_info list \<Rightarrow> 'c peer_node \<Rightarrow> 'c connect_state \<Rightarrow> bool" where
  "ConnectToPeers infos p s \<longleftrightarrow> connect_steps (p, spawn_tasks (pn_ID p) infos) s \<and> all_finished (snd s)"

section \<open>Printing, serializing, closing\<close>

text \<open>
  The comparison of the two calls of \<open>sort.Slice\<close>. The sort is not stable: the order of
  equal elements is left open by a permutation before a stable sort.
\<close>

datatype edge_rank = Edge_Rank i32 i32

instantiation edge_rank :: linorder
begin

fun less_edge_rank :: "edge_rank \<Rightarrow> edge_rank \<Rightarrow> bool" where
  "less_edge_rank (Edge_Rank a b) (Edge_Rank c d) = (if a \<noteq> c then sint a < sint c else sint b < sint d)"

definition less_eq_edge_rank :: "edge_rank \<Rightarrow> edge_rank \<Rightarrow> bool" where
  "less_eq_edge_rank r s \<longleftrightarrow> r < s \<or> r = s"

instance
proof
  fix x y z :: edge_rank
  obtain a b c d e f where e: "x = Edge_Rank a b" "y = Edge_Rank c d" "z = Edge_Rank e f"
    by (metis edge_rank.exhaust)
  have eq: "sint u = sint v \<longleftrightarrow> u = v" for u v :: i32 by (auto intro: signed_word_eqI)
  show "x < y \<longleftrightarrow> x \<le> y \<and> \<not> y \<le> x" by (auto simp: e less_eq_edge_rank_def)
  show "x \<le> x" by (simp add: less_eq_edge_rank_def)
  show "x \<le> y \<Longrightarrow> y \<le> z \<Longrightarrow> x \<le> z" by (auto simp: e less_eq_edge_rank_def split: if_splits)
  show "x \<le> y \<Longrightarrow> y \<le> x \<Longrightarrow> x = y" by (auto simp: e less_eq_edge_rank_def split: if_splits)
  show "x \<le> y \<or> y \<le> x" using eq by (auto simp: e less_eq_edge_rank_def not_less le_less)
qed

end

definition sort_Slice :: "choices \<Rightarrow> ('a \<Rightarrow> 'k :: linorder) \<Rightarrow> 'a list \<Rightarrow> 'a list" where
  "sort_Slice cs key xs = sort_key key (pick_order cs xs)"

text \<open>The arrow of the edge lines is the UTF-8 encoding of U+2192.\<close>

definition arrow :: string where
  "arrow = map char_of [226, 134, 146 :: nat]"

definition node_line :: "'c peer_node \<Rightarrow> network_node \<Rightarrow> string" where
  "node_line p n =
     (let addr = (if nn_ID n = pn_ID p then ''localhost'' else nn_Address n)
      in ''  '' @ fmt_d (sint (nn_ID n)) @ '': '' @ addr @ newline)"

definition edge_line :: "network_edge \<Rightarrow> string" where
  "edge_line e = ''  '' @ fmt_d (sint (ne_From e)) @ '' '' @ arrow @ '' '' @ fmt_d (sint (ne_To e))
     @ '' (latency: '' @ fmt_d (ne_LatencyMs e) @ ''ms)'' @ newline"

definition PrintGraph :: "choices \<Rightarrow> choices \<Rightarrow> choices \<Rightarrow> choices \<Rightarrow> 'c peer_node \<Rightarrow> string" where
  "PrintGraph cn ce sn se p =
     (let nodes = sort_Slice sn (\<lambda>n. sint (nn_ID n)) (GetNodes cn (pn_Graph p));
          edges = sort_Slice se (\<lambda>e. Edge_Rank (ne_From e) (ne_To e)) (GetEdges ce (pn_Graph p))
      in newline @ ''=== PEER-'' @ fmt_d (sint (pn_ID p)) @ '' NETWORK GRAPH ==='' @ newline
         @ ''Nodes ('' @ fmt_d (int (length nodes)) @ ''):'' @ newline
         @ concat (map (node_line p) nodes)
         @ ''Edges ('' @ fmt_d (int (length edges)) @ ''):'' @ newline
         @ concat (map edge_line edges)
         @ replicate 30 (CHR ''='') @ newline)"

text \<open>
  Closing a connection may fail (\<open>close conn\<close> is its error), which is printed; the connections
  are forgotten all the same.
\<close>

fun close_loop :: "('c \<Rightarrow> error option) \<Rightarrow> 'c peer_node \<Rightarrow> (i32 \<times> 'c) list \<Rightarrow> string" where
  "close_loop close p [] = []"
| "close_loop close p ((peerID, conn) # conns) =
     (case close conn of
        Some err \<Rightarrow> peer_tag p @ ''Error closing connection to peer-'' @ fmt_d (sint peerID) @ '': '' @ err @ newline
      | None \<Rightarrow> []) @ close_loop close p conns"

definition Close :: "choices \<Rightarrow> ('c \<Rightarrow> error option) \<Rightarrow> 'c peer_node \<Rightarrow> 'c peer_node \<times> string" where
  "Close cs close p = (p\<lparr>pn_connections := []\<rparr>, close_loop close p (gm_range cs (pn_connections p)))"

definition GetGraphProto :: "choices \<Rightarrow> choices \<Rightarrow> 'c peer_node \<Rightarrow> graph_response" where
  "GetGraphProto cn ce p =
     \<lparr>grs_Nodes = map (\<lambda>n. \<lparr>pnn_Id = nn_ID n, pnn_Address = nn_Address n, pnn_LastSeen = Unix (nn_LastSeen n)\<rparr>)
                    (GetNodes cn (pn_Graph p)),
      grs_Edges = map (\<lambda>e. \<lparr>pne_FromId = ne_From e, pne_ToId = ne_To e, pne_LatencyMs = ne_LatencyMs e\<rparr>)
                    (GetEdges ce (pn_Graph p))\<rparr>"

end
