(* ===== verification/Overlay_Results.thy ===== *)
theory Overlay_Results
  imports Peer_Node
begin

text \<open>
  What building the overlay graph achieves: the measured latencies are bounded, the
  goroutines of \<open>ConnectToPeers\<close> always finish, and whatever the interleaving the graph
  they leave is the one their outcomes determine; the printed graph does not depend on the
  order of the Go maps.
\<close>

section \<open>Latency measurement\<close>

lemma Milliseconds_nonneg: "0 \<le> d \<Longrightarrow> Milliseconds d = d div 1000000"
  by (simp add: Milliseconds_def go_quot_nonneg)

lemma ping_loop_sum:
  assumes "\<forall>i d. ping i = Inr d \<longrightarrow> 0 \<le> d \<and> d \<le> 60000000000"
    and "0 \<le> acc" and "acc + 60000 * int (length is) \<le> max_int64" and "ping_loop ping is acc = Inr s"
  shows "acc \<le> s \<and> s \<le> acc + 60000 * int (length is)
    \<and> (\<forall>i \<in> set is. \<exists>d. ping i = Inr d) \<and> s = acc + (\<Sum>i\<leftarrow>is. (case ping i of Inr d \<Rightarrow> d div 1000000 | Inl _ \<Rightarrow> 0))"
  using assms
proof (induction "is" arbitrary: acc)
  case (Cons i "is")
  obtain d where d: "ping i = Inr d" using Cons.prems(4) by (cases "ping i") auto
  then have r: "0 \<le> d" "d \<le> 60000000000" using Cons.prems(1) by auto
  then have ms: "0 \<le> d div 1000000" "d div 1000000 \<le> 60000"
    using zdiv_mono1 [OF r(2), of 1000000] by (simp_all add: pos_imp_zdiv_nonneg_iff)
  then have w: "wrap64 (acc + Milliseconds d) = acc + d div 1000000"
    using Cons.prems(2,3) r by (simp add: Milliseconds_nonneg wrap64_id)
  have "acc + d div 1000000 \<le> s \<and> s \<le> acc + d div 1000000 + 60000 * int (length is)
      \<and> (\<forall>i \<in> set is. \<exists>d. ping i = Inr d)
      \<and> s = acc + d div 1000000 + (\<Sum>i\<leftarrow>is. (case ping i of Inr d \<Rightarrow> d div 1000000 | Inl _ \<Rightarrow> 0))"
    using Cons.prems(2-4) ms d w by (intro Cons.IH [OF Cons.prems(1)]) (auto simp: algebra_simps)
  then show ?case using ms d by auto
qed simp

lemma measureLatency_range:
  assumes "\<forall>i d. ping i = Inr d \<longrightarrow> 0 \<le> d \<and> d \<le> 60000000000" and "measureLatency ping = Inr l"
  shows "1 \<le> l \<and> l \<le> 60000"
proof -
  obtain s where s: "ping_loop ping [0..<3] 0 = Inr s" "l = (if go_quot s 3 = 0 then 1 else go_quot s 3)"
    using assms(2) by (auto simp: measureLatency_def Let_def split: sum.splits)
  have "0 \<le> s \<and> s \<le> 180000"
    using ping_loop_sum [OF assms(1) _ _ s(1)] by (simp add: max_int64_def)
  then have "go_quot s 3 = s div 3" "0 \<le> s div 3" "s div 3 \<le> 60000"
    by (simp add: go_quot_nonneg, presburger+)
  then show ?thesis using s(2) by auto
qed

section \<open>The goroutines\<close>

lemma map_fst_spawn: "map fst (spawn_tasks self infos) = filter (\<lambda>i. pi_PeerId i \<noteq> self) infos"
  by (induction self infos rule: spawn_tasks.induct) auto

lemma spawn_Dialing: "(info, pc) \<in> set (spawn_tasks self infos) \<Longrightarrow> pc = Dialing"
  by (induction self infos rule: spawn_tasks.induct) (auto split: if_splits)

text \<open>The latency a goroutine holds, and the node it has added.\<close>

fun held_latency :: "'c task_pc \<Rightarrow> int option" where
  "held_latency (Measured l) = Some l"
| "held_latency (Node_Added l) = Some l"
| "held_latency (Finished (Linked l)) = Some l"
| "held_latency _ = None"

fun has_node :: "'c task_pc \<Rightarrow> bool" where
  "has_node (Node_Added l) = True"
| "has_node (Finished r) = (r \<noteq> Dial_Failed)"
| "has_node _ = False"

text \<open>The edges that finished goroutines have made, by target.\<close>

fun link_of :: "peer_info \<times> 'c task_pc \<Rightarrow> (i32 \<times> int) list" where
  "link_of (info, Finished (Linked l)) = [(pi_PeerId info, l)]"
| "link_of _ = []"

definition linked :: "(peer_info \<times> 'c task_pc) list \<Rightarrow> i32 \<Rightarrow> int option" where
  "linked ts = map_of (concat (map link_of ts))"

definition distinct_targets :: "(peer_info \<times> 'c task_pc) list \<Rightarrow> bool" where
  "distinct_targets ts \<longleftrightarrow> distinct (map (\<lambda>t. pi_PeerId (fst t)) ts)"

lemma link_of_iff: "(t, l) \<in> set (link_of e) \<longleftrightarrow> (\<exists>info. e = (info, Finished (Linked l)) \<and> pi_PeerId info = t)"
  by (cases e rule: link_of.cases) auto

lemma singleton_disjoint: "A \<subseteq> {x} \<Longrightarrow> x \<notin> B \<Longrightarrow> A \<inter> B = {}"
  by blast

lemma singleton_union: "A \<subseteq> {x} \<Longrightarrow> B \<subseteq> S \<Longrightarrow> A \<union> B \<subseteq> insert x S"
  by blast

lemma linked_iff:
  assumes "distinct_targets ts"
  shows "linked ts t = Some l \<longleftrightarrow> (\<exists>info. (info, Finished (Linked l)) \<in> set ts \<and> pi_PeerId info = t)"
proof -
  have "distinct (map fst (concat (map link_of ts)))
      \<and> fst ` set (concat (map link_of ts)) \<subseteq> (\<lambda>t. pi_PeerId (fst t)) ` set ts"
    using assms unfolding distinct_targets_def
  proof (induction ts)
    case (Cons e ts)
    define L where "L = concat (map link_of ts)"
    have e: "distinct (map fst (link_of e))" "fst ` set (link_of e) \<subseteq> {pi_PeerId (fst e)}"
      by (cases e rule: link_of.cases; simp)+
    have d: "distinct (map (\<lambda>t. pi_PeerId (fst t)) ts)" and IH3: "pi_PeerId (fst e) \<notin> (\<lambda>t. pi_PeerId (fst t)) ` set ts"
      using Cons.prems by simp_all
    note IH = Cons.IH [OF d, folded L_def, THEN conjunct1] Cons.IH [OF d, folded L_def, THEN conjunct2] IH3
    have c: "concat (map link_of (e # ts)) = link_of e @ L" by (simp add: L_def)
    have "fst ` set (link_of e) \<inter> fst ` set L = {}" by (rule singleton_disjoint [OF e(2) contra_subsetD [OF IH(2,3)]])
    then have "distinct (map fst (link_of e @ L))" using e(1) IH(1) by simp
    moreover have "fst ` set (link_of e @ L) \<subseteq> (\<lambda>t. pi_PeerId (fst t)) ` set (e # ts)"
      unfolding set_append image_Un list.set image_insert by (rule singleton_union [OF e(2) IH(2)])
    ultimately show ?case by (simp only: c)
  qed simp
  then have "linked ts t = Some l \<longleftrightarrow> (\<exists>e \<in> set ts. (t, l) \<in> set (link_of e))"
    by (auto simp: linked_def)
  then show ?thesis unfolding link_of_iff by auto
qed

lemma set_update_other: "i < length ts \<Longrightarrow> x \<noteq> ts ! i \<Longrightarrow> x \<in> set (ts[i := y]) \<longleftrightarrow> x \<in> set ts \<or> x = y"
proof (induction ts arbitrary: i)
  case (Cons a ts)
  then show ?case by (cases i) auto
qed simp

lemma map_eq_by_Some: "(\<And>k v. f k = Some v \<longleftrightarrow> g k = Some v) \<Longrightarrow> f = g"
proof (rule ext)
  fix k
  assume eq: "\<And>k v. f k = Some v \<longleftrightarrow> g k = Some v"
  show "f k = g k"
  proof (cases "f k")
    case None
    then have "\<forall>v. g k \<noteq> Some v" by (simp add: eq [symmetric])
    then show ?thesis using None by simp
  next
    case (Some v)
    then show ?thesis using eq [of k v] by simp
  qed
qed

lemma linked_update:
  assumes d: "distinct_targets ts" and i: "i < length ts" "ts ! i = (info, pc)" "\<forall>r. pc \<noteq> Finished r"
  shows "linked (ts[i := (info, pc')]) =
    (case pc' of Finished (Linked l) \<Rightarrow> (linked ts)(pi_PeerId info \<mapsto> l) | _ \<Rightarrow> linked ts)"
    and "distinct_targets (ts[i := (info, pc')])"
proof -
  have "map (\<lambda>t. pi_PeerId (fst t)) (ts[i := (info, pc')]) = map (\<lambda>t. pi_PeerId (fst t)) ts"
    using i by (intro nth_equalityI) (auto simp: nth_list_update)
  then show d': "distinct_targets (ts[i := (info, pc')])" using d by (simp add: distinct_targets_def)
  have mem: "(j, Finished r) \<in> set (ts[i := (info, pc')])
      \<longleftrightarrow> (j, Finished r) \<in> set ts \<or> (j = info \<and> pc' = Finished r)" for j r
  proof -
    have "(j, Finished r) \<noteq> ts ! i" using i(2,3) by auto
    from set_update_other [OF i(1) this, of "(info, pc')"] show ?thesis by auto
  qed
  have target: False if t: "(j, Finished r) \<in> set ts" "pi_PeerId j = pi_PeerId info" for j r
  proof -
    obtain k where k: "k < length ts" "ts ! k = (j, Finished r)" using t(1) by (auto simp: in_set_conv_nth)
    then have "k = i"
      using d i t(2) unfolding distinct_targets_def distinct_conv_nth by (metis fst_conv length_map nth_map)
    then show False using k i(2,3) by auto
  qed
  have "linked (ts[i := (info, pc')]) t = Some l \<longleftrightarrow>
      (case pc' of Finished (Linked l) \<Rightarrow> (linked ts)(pi_PeerId info \<mapsto> l) | _ \<Rightarrow> linked ts) t = Some l" for t l
    using target by (auto simp: linked_iff [OF d'] linked_iff [OF d] mem split: task_pc.splits task_end.splits)
  then show "linked (ts[i := (info, pc')]) =
    (case pc' of Finished (Linked l) \<Rightarrow> (linked ts)(pi_PeerId info \<mapsto> l) | _ \<Rightarrow> linked ts)"
    by (rule map_eq_by_Some)
qed

text \<open>The effect of one action on the graph.\<close>

lemma task_step_graph:
  assumes "task_step inp info pc p = (pc', p')"
  shows "pn_ID p' = pn_ID p" and "pn_Router p' = pn_Router p" and "pn_Storage p' = pn_Storage p"
    and "ng_wf (pn_Graph p) \<Longrightarrow> ng_wf (pn_Graph p')"
    and "edge_map (pn_Graph p') = (case pc of Node_Added l \<Rightarrow> (edge_map (pn_Graph p))((pn_ID p, pi_PeerId info) \<mapsto> l)
          | _ \<Rightarrow> edge_map (pn_Graph p))"
    and "dom (node_map (pn_Graph p')) = dom (node_map (pn_Graph p)) \<union> (if has_node pc' \<and> \<not> has_node pc then {pi_PeerId info} else {})"
    and "(\<exists>l. pc' = Finished (Linked l)) \<longleftrightarrow> (\<exists>l. pc = Node_Added l \<or> pc = Finished (Linked l))"
    and "has_node pc \<Longrightarrow> has_node pc'"
  using assms by (cases pc; auto simp: overlay_simps split: sum.splits)+

lemma task_step_latency:
  assumes "task_step inp info pc p = (pc', p')" and "timely inp" and "held_latency pc' = Some l"
  shows "held_latency pc = Some l \<or> (1 \<le> l \<and> l \<le> 60000)"
proof (cases pc)
  case (Connected conn)
  then have "measureLatency (ti_ping inp conn) = Inr l"
    using assms(1,3) by (auto split: sum.splits)
  then show ?thesis using measureLatency_range [of "ti_ping inp conn" l] assms(2) by (auto simp: timely_def)
qed (use assms(1,3) in \<open>auto split: sum.splits\<close>)

section \<open>Every interleaving\<close>

text \<open>
  The invariant of the connection phase that began in state \<open>p0\<close> for the peers \<open>infos\<close>: the
  edges are the old ones overridden by those of the finished goroutines.
\<close>

definition connect_inv :: "'c peer_node \<Rightarrow> peer_info list \<Rightarrow> 'c connect_state \<Rightarrow> bool" where
  "connect_inv p0 infos s \<longleftrightarrow> (case s of (p, ts) \<Rightarrow>
     pn_ID p = pn_ID p0 \<and> pn_Router p = pn_Router p0 \<and> pn_Storage p = pn_Storage p0
     \<and> ng_wf (pn_Graph p) \<and> distinct_targets ts
     \<and> map fst ts = filter (\<lambda>i. pi_PeerId i \<noteq> pn_ID p0) infos
     \<and> edge_map (pn_Graph p) = edge_map (pn_Graph p0) ++ (\<lambda>(f, t). if f = pn_ID p0 then linked ts t else None)
     \<and> dom (node_map (pn_Graph p0)) \<subseteq> dom (node_map (pn_Graph p))
     \<and> (\<forall>(info, pc) \<in> set ts. (has_node pc \<longrightarrow> pi_PeerId info \<in> dom (node_map (pn_Graph p)))
          \<and> (\<forall>l. held_latency pc = Some l \<longrightarrow> 1 \<le> l \<and> l \<le> 60000)))"

lemma distinct_filter_map: "distinct (map f xs) \<Longrightarrow> distinct (map f (filter P xs))"
  by (rule distinct_map_filter)

lemma connect_inv_start:
  fixes p :: "'c peer_node"
  assumes "ng_wf (pn_Graph p)" and "distinct (map pi_PeerId infos)"
  shows "connect_inv p infos (p, spawn_tasks (pn_ID p) infos)"
proof -
  let ?ts = "spawn_tasks (pn_ID p) infos :: (peer_info \<times> 'c task_pc) list"
  have "map (\<lambda>t. pi_PeerId (fst t)) ?ts = map pi_PeerId (map fst ?ts)" by (simp add: comp_def)
  then have d: "distinct_targets ?ts"
    unfolding distinct_targets_def map_fst_spawn using assms(2) by (simp only: distinct_filter_map)
  have "linked ?ts = Map.empty"
    by (rule map_eq_by_Some) (auto simp: linked_iff [OF d] dest: spawn_Dialing)
  then have "edge_map (pn_Graph p) = edge_map (pn_Graph p) ++ (\<lambda>(f, t). if f = pn_ID p then linked ?ts t else None)"
    by (auto simp: map_add_def split: option.splits)
  then show ?thesis
    using assms(1) d by (auto simp: connect_inv_def map_fst_spawn dest!: spawn_Dialing)
qed

lemma map_add_update: "m ++ (\<lambda>(f, t). if f = a then (n(b \<mapsto> l)) t else None) = (m ++ (\<lambda>(f, t). if f = a then n t else None))((a, b) \<mapsto> l)"
proof (rule ext, clarify)
  fix c d
  show "(m ++ (\<lambda>(f, t). if f = a then (n(b \<mapsto> l)) t else None)) (c, d)
      = ((m ++ (\<lambda>(f, t). if f = a then n t else None))((a, b) \<mapsto> l)) (c, d)"
    by (cases "c = a"; cases "d = b") (simp_all add: map_add_def)
qed

lemma connect_inv_step:
  assumes "connect_inv p0 infos s" and "connect_step s s'"
  shows "connect_inv p0 infos s'"
  using assms(2)
proof cases
  case (run_task i ts info pc inp p pc' p')
  let ?ts = "ts[i := (info, pc')]"
  have inv: "pn_ID p = pn_ID p0" "pn_Router p = pn_Router p0" "pn_Storage p = pn_Storage p0" "ng_wf (pn_Graph p)"
    "distinct_targets ts" "map fst ts = filter (\<lambda>i. pi_PeerId i \<noteq> pn_ID p0) infos"
    "edge_map (pn_Graph p) = edge_map (pn_Graph p0) ++ (\<lambda>(f, t). if f = pn_ID p0 then linked ts t else None)"
    "dom (node_map (pn_Graph p0)) \<subseteq> dom (node_map (pn_Graph p))"
    "\<forall>(info, pc) \<in> set ts. (has_node pc \<longrightarrow> pi_PeerId info \<in> dom (node_map (pn_Graph p)))
          \<and> (\<forall>l. held_latency pc = Some l \<longrightarrow> 1 \<le> l \<and> l \<le> 60000)"
    using assms(1) by (simp_all add: connect_inv_def run_task(1))
  note step = task_step_graph [OF run_task(7)]
  have mem: "(info, pc) \<in> set ts" using run_task(3,4) by (metis nth_mem)
  have "map fst ?ts = map fst ts"
    using run_task(3,4) by (intro nth_equalityI) (auto simp: nth_list_update)
  moreover have "edge_map (pn_Graph p') = edge_map (pn_Graph p0) ++ (\<lambda>(f, t). if f = pn_ID p0 then linked ?ts t else None)"
  proof (cases "\<exists>l. pc = Node_Added l")
    case True
    then obtain l where pc: "pc = Node_Added l" by blast
    then have "pc' = Finished (Linked l)" using run_task(7) by simp
    then have "linked ?ts = (linked ts)(pi_PeerId info \<mapsto> l)"
      using linked_update(1) [OF inv(5) run_task(3,4,5), of pc'] by simp
    moreover have "edge_map (pn_Graph p') = (edge_map (pn_Graph p))((pn_ID p0, pi_PeerId info) \<mapsto> l)"
      using step(5) inv(1) by (simp add: pc)
    ultimately show ?thesis unfolding inv(7) by (simp only: map_add_update)
  next
    case False
    then have "edge_map (pn_Graph p') = edge_map (pn_Graph p)" using step(5) by (cases pc) auto
    moreover have "\<forall>l. pc' \<noteq> Finished (Linked l)" using False step(7) run_task(5) by blast
    then have same: "linked ?ts = linked ts"
      using linked_update(1) [OF inv(5) run_task(3,4,5), of pc'] by (cases pc') (auto split: task_end.splits)
    ultimately show ?thesis unfolding inv(7) same by simp
  qed
  moreover have "\<forall>(j, c) \<in> set ?ts. (has_node c \<longrightarrow> pi_PeerId j \<in> dom (node_map (pn_Graph p')))
          \<and> (\<forall>l. held_latency c = Some l \<longrightarrow> 1 \<le> l \<and> l \<le> 60000)"
  proof -
    have "has_node pc' \<longrightarrow> pi_PeerId info \<in> dom (node_map (pn_Graph p'))" using inv(9) mem step(6) by auto
    moreover have "\<forall>l. held_latency pc' = Some l \<longrightarrow> 1 \<le> l \<and> l \<le> 60000"
      using inv(9) mem task_step_latency [OF run_task(7,6)] by blast
    moreover have "\<forall>(j, c) \<in> set ts. (has_node c \<longrightarrow> pi_PeerId j \<in> dom (node_map (pn_Graph p')))
          \<and> (\<forall>l. held_latency c = Some l \<longrightarrow> 1 \<le> l \<and> l \<le> 60000)"
      using inv(9) step(6) by blast
    ultimately show ?thesis using set_update_subset_insert [of ts i "(info, pc')"] by blast
  qed
  moreover have "dom (node_map (pn_Graph p0)) \<subseteq> dom (node_map (pn_Graph p'))" using inv(8) step(6) by blast
  moreover have "distinct_targets ?ts" using linked_update(2) [OF inv(5) run_task(3,4,5)] .
  ultimately show ?thesis
    using inv step(1-4) unfolding connect_inv_def run_task(2) by simp
next
  case (notified p ts now n a)
  then show ?thesis using assms(1) by (auto simp: connect_inv_def overlay_simps)
qed

lemma connect_inv_steps: "connect_steps s s' \<Longrightarrow> connect_inv p0 infos s \<Longrightarrow> connect_inv p0 infos s'"
  by (induction rule: connect_steps.induct) (auto intro: connect_inv_step)

text \<open>Actions left to a goroutine, the ground of termination.\<close>

fun actions_left :: "'c task_pc \<Rightarrow> nat" where
  "actions_left Dialing = 5"
| "actions_left (Dialed c) = 4"
| "actions_left (Connected c) = 3"
| "actions_left (Measured l) = 2"
| "actions_left (Node_Added l) = 1"
| "actions_left Unmeasured = 1"
| "actions_left (Finished r) = 0"

definition work :: "(peer_info \<times> 'c task_pc) list \<Rightarrow> nat" where
  "work ts = (\<Sum>t\<leftarrow>ts. actions_left (snd t))"

lemma work_update:
  "i < length ts \<Longrightarrow> work (ts[i := x]) + actions_left (snd (ts ! i)) = work ts + actions_left (snd x)"
proof (induction ts arbitrary: i)
  case (Cons t ts)
  then show ?case by (cases i) (auto simp: work_def)
qed simp

lemma task_step_decreases:
  assumes "task_step inp info pc p = (pc', p')" and "\<forall>r. pc \<noteq> Finished r"
  shows "actions_left pc' < actions_left pc"
  using assms by (cases pc) (auto split: sum.splits)

lemma work_task_step:
  assumes "i < length ts" and "ts ! i = (info, pc)" and "\<forall>r. pc \<noteq> Finished r"
    and "task_step inp info pc p = (pc', p')"
  shows "work (ts[i := (info, pc')]) < work ts"
  using work_update [OF assms(1), of "(info, pc')"] task_step_decreases [OF assms(4,3)] assms(2) by simp

section \<open>Printing\<close>

lemma sort_Slice_unique:
  assumes "distinct (map key xs)" and "mset xs = mset ys"
  shows "sort_Slice cs key xs = sort_Slice cs' key ys"
  unfolding sort_Slice_def
proof (rule sort_key_inj_key_eq)
  show "mset (pick_order cs xs) = mset (sort_key key (pick_order cs' ys))" using assms(2) by simp
  show "inj_on key (set (pick_order cs xs))" using assms(1) by (simp add: distinct_map)
  show "sorted (map key (sort_key key (pick_order cs' ys)))" by simp
qed

lemma distinct_ranks: "ng_wf g \<Longrightarrow> distinct (map (\<lambda>e. Edge_Rank (ne_From e) (ne_To e)) (GetEdges cs g))"
proof -
  assume "ng_wf g"
  have "map (\<lambda>e. (ne_From e, ne_To e)) (GetEdges cs g) = map (\<lambda>e. (ge_From e, ge_To e)) (peer_GetEdgeList cs g)"
    by (simp add: GetEdges_def peer_GetEdgeList_def split_beta)
  then have "distinct (map (\<lambda>e. (ne_From e, ne_To e)) (GetEdges cs g))"
    using distinct_edge_list [OF \<open>ng_wf g\<close>] by simp
  then show ?thesis by (auto simp: distinct_map inj_on_def)
qed

lemma mset_GetNodes: "mset (GetNodes cs g) = mset (GetNodes cs' g)"
  by (simp add: GetNodes_def)

lemma mset_GetEdges: "mset (GetEdges cs g) = mset (GetEdges cs' g)"
  by (simp add: GetEdges_def)

section \<open>Schedules\<close>

text \<open>A concrete scheduler: the goroutine to run next and what it is answered.\<close>

definition schedule_one :: "nat \<times> 'c task_input \<Rightarrow> 'c connect_state \<Rightarrow> 'c connect_state" where
  "schedule_one = (\<lambda>(i, inp) (p, ts).
     if i < length ts
     then let (info, pc) = ts ! i; (pc', p') = task_step inp info pc p in (p', ts[i := (info, pc')])
     else (p, ts))"

definition run_schedule :: "(nat \<times> 'c task_input) list \<Rightarrow> 'c connect_state \<Rightarrow> 'c connect_state" where
  "run_schedule sch s = fold schedule_one sch s"

lemma connect_steps_trans: "connect_steps s s' \<Longrightarrow> connect_steps s' s'' \<Longrightarrow> connect_steps s s''"
  by (rotate_tac, induction rule: connect_steps.induct) (auto intro: connect_steps.more)

lemma schedule_one_steps:
  assumes "timely inp"
  shows "connect_steps s (schedule_one (i, inp) s)"
proof -
  obtain p ts where s: "s = (p, ts)" by (cases s)
  show ?thesis
  proof (cases "i < length ts")
    case True
    obtain info pc where e: "ts ! i = (info, pc)" by (cases "ts ! i")
    obtain pc' p' where st: "task_step inp info pc p = (pc', p')" by (metis surj_pair)
    have eq: "schedule_one (i, inp) s = (p', ts[i := (info, pc')])"
      using True by (simp add: schedule_one_def s e st)
    show ?thesis
    proof (cases "\<forall>r. pc \<noteq> Finished r")
      case unfinished: True
      show ?thesis
        using connect_steps.more [OF connect_steps.none connect_step.run_task [OF True e unfinished assms st]] eq
        by (simp add: s)
    next
      case False
      then have "pc' = pc" "p' = p" using st by auto
      then have "schedule_one (i, inp) s = s" using eq e s by (metis list_update_id)
      then show ?thesis by (simp add: connect_steps.none)
    qed
  qed (simp add: schedule_one_def s connect_steps.none)
qed

lemma run_schedule_steps: "\<forall>(i, inp) \<in> set sch. timely inp \<Longrightarrow> connect_steps s (run_schedule sch s)"
proof (induction sch arbitrary: s)
  case (Cons x sch)
  obtain i inp where x: "x = (i, inp)" by (cases x)
  have "connect_steps (schedule_one (i, inp) s) (run_schedule sch (schedule_one (i, inp) s))"
    using Cons.prems by (intro Cons.IH) auto
  moreover have "connect_steps s (schedule_one (i, inp) s)"
    using Cons.prems x by (intro schedule_one_steps) auto
  ultimately have "connect_steps s (run_schedule sch (schedule_one (i, inp) s))"
    by (rule connect_steps_trans [rotated])
  then show ?case by (simp add: run_schedule_def x)
qed (simp add: run_schedule_def connect_steps.none)

lemma some_timely: "timely \<lparr>ti_dial = (\<lambda>_. Inl []), ti_ping = (\<lambda>_ _. Inl []), ti_now = 0\<rparr>"
  by (simp add: timely_def)

text \<open>From any state the goroutines can finish.\<close>

lemma can_finish: "\<exists>s. connect_steps (p, ts) s \<and> all_finished (snd s)"
proof (induction "work ts" arbitrary: p ts rule: less_induct)
  case less
  show ?case
  proof (cases "all_finished ts")
    case True
    then show ?thesis using connect_steps.none by (metis snd_conv)
  next
    case False
    then obtain i info pc where i: "i < length ts" "ts ! i = (info, pc)" "\<forall>r. pc \<noteq> Finished r"
      by (auto simp: all_finished_def in_set_conv_nth)
    obtain pc' p' where st: "task_step \<lparr>ti_dial = (\<lambda>_. Inl []), ti_ping = (\<lambda>_ _. Inl []), ti_now = 0\<rparr> info pc p = (pc', p')"
      by (metis surj_pair)
    have "connect_step (p, ts) (p', ts[i := (info, pc')])"
      by (rule connect_step.run_task [OF i some_timely st])
    moreover obtain s where "connect_steps (p', ts[i := (info, pc')]) s" "all_finished (snd s)"
      using less [OF work_task_step [OF i st]] by blast
    ultimately show ?thesis using connect_steps.more [OF connect_steps.none] connect_steps_trans by blast
  qed
qed

lemma work_spawn: "work (spawn_tasks self infos) \<le> 5 * length infos"
  by (induction self infos rule: spawn_tasks.induct) (auto simp: work_def)

lemma connect_step_work:
  assumes "connect_step s s'"
  shows "snd s' = snd s \<or> work (snd s') < work (snd s)"
  using assms by (cases rule: connect_step.cases) (auto intro: work_task_step)

lemma connect_steps_work: "connect_steps s s' \<Longrightarrow> work (snd s') \<le> work (snd s)"
proof (induction rule: connect_steps.induct)
  case (more s s' s'')
  then show ?case using connect_step_work [OF more.hyps(2)] by auto
qed simp

section \<open>Results\<close>

text \<open>
  A measured latency is the mean of the whole milliseconds of the three pings, but at
  least 1: it is positive and at most the longest a ping may take. Any failed ping makes
  the measurement fail.
\<close>

lemma measured_latency:
  assumes "\<forall>i d. ping i = Inr d \<longrightarrow> 0 \<le> d \<and> d \<le> 60000000000"
  shows "(\<forall>l. measureLatency ping = Inr l \<longrightarrow> 1 \<le> l \<and> l \<le> 60000 \<and>
      (\<exists>a b c. ping 0 = Inr a \<and> ping 1 = Inr b \<and> ping 2 = Inr c
        \<and> l = max 1 ((a div 1000000 + b div 1000000 + c div 1000000) div 3)))
    \<and> ((\<exists>i < 3. \<exists>e. ping i = Inl e) \<longrightarrow> (\<exists>e. measureLatency ping = Inl e))"
proof -
  have main: "1 \<le> l \<and> l \<le> 60000 \<and> (\<exists>a b c. ping 0 = Inr a \<and> ping 1 = Inr b \<and> ping 2 = Inr c
        \<and> l = max 1 ((a div 1000000 + b div 1000000 + c div 1000000) div 3))" if l: "measureLatency ping = Inr l" for l
  proof -
    obtain s where s: "ping_loop ping [0..<3] 0 = Inr s" "l = (if go_quot s 3 = 0 then 1 else go_quot s 3)"
      using l by (auto simp: measureLatency_def Let_def split: sum.splits)
    note sum = ping_loop_sum [OF assms _ _ s(1)]
    have three: "[0..<3] = [0, 1, 2 :: nat]" by (simp add: upt_rec)
    have "\<forall>i \<in> set [0, 1, 2]. \<exists>d. ping i = Inr d" "0 \<le> s"
      "s = (\<Sum>i\<leftarrow>[0, 1, 2]. (case ping i of Inr d \<Rightarrow> d div 1000000 | Inl _ \<Rightarrow> 0))"
      using sum by (simp_all add: max_int64_def three)
    moreover from this obtain a b c where abc: "ping 0 = Inr a" "ping 1 = Inr b" "ping 2 = Inr c" by auto
    ultimately have sum3: "s = a div 1000000 + b div 1000000 + c div 1000000" and s0: "0 \<le> s" by simp_all
    have "0 \<le> s div 3" using s0 by (simp add: pos_imp_zdiv_nonneg_iff)
    then have "l = max 1 (s div 3)" unfolding s(2) go_quot_nonneg [OF s0 zero_less_numeral] by simp
    then have "l = max 1 ((a div 1000000 + b div 1000000 + c div 1000000) div 3)" by (simp only: sum3)
    then show ?thesis using abc measureLatency_range [OF assms l] by blast
  qed
  moreover have "\<exists>e. measureLatency ping = Inl e" if "i < 3" "ping i = Inl e" for i e
  proof (cases "measureLatency ping")
    case (Inr l)
    have "i = 0 \<or> i = 1 \<or> i = 2" using that(1) by auto
    moreover obtain a b c where "ping 0 = Inr a" "ping 1 = Inr b" "ping 2 = Inr c" using main [OF Inr] by blast
    ultimately show ?thesis using that(2) by auto
  qed blast
  ultimately show ?thesis by blast
qed

lemma connect_result:
  assumes "ng_wf (pn_Graph p)" and "distinct (map pi_PeerId infos)" and "ConnectToPeers infos p (p', ts)"
  shows "map fst ts = filter (\<lambda>i. pi_PeerId i \<noteq> pn_ID p) infos
    \<and> edge_map (pn_Graph p') = edge_map (pn_Graph p) ++ (\<lambda>(f, t). if f = pn_ID p then linked ts t else None)
    \<and> (\<forall>t l. linked ts t = Some l \<longleftrightarrow> (\<exists>info. (info, Finished (Linked l)) \<in> set ts \<and> pi_PeerId info = t))
    \<and> (\<forall>t l. linked ts t = Some l \<longrightarrow> 1 \<le> l \<and> l \<le> 60000)
    \<and> (\<forall>(info, pc) \<in> set ts. pc \<noteq> Finished Dial_Failed \<longrightarrow> node_map (pn_Graph p') (pi_PeerId info) \<noteq> None)"
proof -
  have inv: "connect_inv p infos (p', ts)" and fin: "all_finished ts"
    using assms(3) connect_inv_steps [OF _ connect_inv_start [OF assms(1,2)]] by (auto simp: ConnectToPeers_def)
  then have d: "distinct_targets ts" by (simp add: connect_inv_def)
  have lat: "1 \<le> l \<and> l \<le> 60000" if "linked ts t = Some l" for t l
    using that inv unfolding linked_iff [OF d] by (fastforce simp: connect_inv_def)
  have "node_map (pn_Graph p') (pi_PeerId info) \<noteq> None" if e: "(info, pc) \<in> set ts" "pc \<noteq> Finished Dial_Failed" for info pc
  proof -
    obtain r where "pc = Finished r" using fin e(1) by (auto simp: all_finished_def)
    then have "has_node pc" using e(2) by simp
    then show ?thesis using inv e(1) by (auto simp: connect_inv_def)
  qed
  moreover have "map fst ts = filter (\<lambda>i. pi_PeerId i \<noteq> pn_ID p) infos"
    "edge_map (pn_Graph p') = edge_map (pn_Graph p) ++ (\<lambda>(f, t). if f = pn_ID p then linked ts t else None)"
    using inv by (simp_all add: connect_inv_def)
  ultimately show ?thesis using lat linked_iff [OF d] by blast
qed

text \<open>
  C5: Whatever the interleaving of the goroutines of \<open>ConnectToPeers\<close> with each other and with
  incoming notifications, when it returns, every peer that could be dialled is a node; the
  edges are those of before overridden, from this peer, by exactly the peers whose latency
  was measured, with that latency (between 1 ms and a minute); no other edge changes.
\<close>

theorem connect_any_interleaving:
  assumes "ng_wf (pn_Graph p)" and "distinct (map pi_PeerId infos)" and "ConnectToPeers infos p (p', ts)"
  shows "map fst ts = filter (\<lambda>i. pi_PeerId i \<noteq> pn_ID p) infos
    \<and> edge_map (pn_Graph p') = edge_map (pn_Graph p) ++ (\<lambda>(f, t). if f = pn_ID p then linked ts t else None)
    \<and> (\<forall>t l. linked ts t = Some l \<longleftrightarrow> (\<exists>info. (info, Finished (Linked l)) \<in> set ts \<and> pi_PeerId info = t))
    \<and> (\<forall>t l. linked ts t = Some l \<longrightarrow> 1 \<le> l \<and> l \<le> 60000)
    \<and> (\<forall>(info, pc) \<in> set ts. pc \<noteq> Finished Dial_Failed \<longrightarrow> node_map (pn_Graph p') (pi_PeerId info) \<noteq> None)"
  using assms by (rule connect_result)

definition sample_peer :: "string peer_node" where
  "sample_peer = \<lparr>pn_ID = 1, pn_Port = 9001, pn_Address = ''localhost:9001'', pn_BootstrapAddr = ''localhost:5000'',
     pn_Graph = AddNode 0 1 ''localhost:9001'' NewNetworkGraph, pn_Router = NewDijkstraRouter,
     pn_Storage = sample_manager, pn_connections = []\<rparr>"

definition sample_infos :: "peer_info list" where
  "sample_infos = [\<lparr>pi_PeerId = 2, pi_Address = ''localhost:9002'', pi_LastSeen = 0\<rparr>,
     \<lparr>pi_PeerId = 1, pi_Address = ''localhost:9001'', pi_LastSeen = 0\<rparr>,
     \<lparr>pi_PeerId = 3, pi_Address = ''nowhere'', pi_LastSeen = 0\<rparr>]"

text \<open>Peer 2 answers within 12 ms, peer 3 cannot be dialled; the two goroutines take turns.\<close>

definition sample_input :: "string task_input" where
  "sample_input = \<lparr>ti_dial = (\<lambda>a. if a = ''nowhere'' then Inl ''bad address'' else Inr a),
     ti_ping = (\<lambda>_ _. Inr 12000000), ti_now = 7\<rparr>"

lemma sample_input_timely: "timely sample_input"
  by (simp add: timely_def sample_input_def)

lemma sample_peer_wf: "ng_wf (pn_Graph sample_peer)"
  by (simp add: sample_peer_def)

definition sample_connected :: "string connect_state" where
  "sample_connected = run_schedule (map (\<lambda>i. (i, sample_input)) [0, 1, 0, 0, 0, 0])
     (sample_peer, spawn_tasks (pn_ID sample_peer) sample_infos)"

lemma sample_connected_tasks: "map snd (snd sample_connected) = [Finished (Linked 12), Finished Dial_Failed]"
  by code_simp

lemma sample_connected_run: "ConnectToPeers sample_infos sample_peer sample_connected"
proof -
  have "connect_steps (sample_peer, spawn_tasks (pn_ID sample_peer) sample_infos) sample_connected"
    unfolding sample_connected_def by (rule run_schedule_steps) (auto simp: sample_input_timely)
  moreover have "\<exists>r. pc = Finished r" if "(info, pc) \<in> set (snd sample_connected)" for info pc
  proof -
    have "pc \<in> set (map snd (snd sample_connected))" using that by force
    then show ?thesis by (auto simp: sample_connected_tasks)
  qed
  ultimately show ?thesis by (auto simp: ConnectToPeers_def all_finished_def)
qed

theorem connect_any_interleaving_witness:
  "map fst (snd sample_connected) = filter (\<lambda>i. pi_PeerId i \<noteq> 1) sample_infos
   \<and> edge_map (pn_Graph (fst sample_connected)) = edge_map (pn_Graph sample_peer)
       ++ (\<lambda>(f, t). if f = 1 then linked (snd sample_connected) t else None)"
proof -
  have id: "pn_ID sample_peer = 1" by (simp add: sample_peer_def)
  have "distinct (map pi_PeerId sample_infos)" by (simp add: sample_infos_def)
  from connect_any_interleaving [OF sample_peer_wf this, of "fst sample_connected" "snd sample_connected"]
  show ?thesis using sample_connected_run by (simp add: id)
qed

text \<open>
  \<open>ConnectToPeers\<close> terminates without deadlock. In every state it can reach, at most five
  actions per peer are left, each action of a goroutine leaves fewer, and the goroutines can
  all finish from there.
\<close>

lemma connect_always_finishes:
  assumes "connect_steps (p, spawn_tasks (pn_ID p) infos) (q, ts)"
  shows "work ts \<le> 5 * length infos
    \<and> (\<forall>q' ts'. connect_step (q, ts) (q', ts') \<longrightarrow> ts' = ts \<or> work ts' < work ts)
    \<and> (\<exists>s. connect_steps (q, ts) s \<and> all_finished (snd s))"
proof -
  have "work ts \<le> 5 * length infos"
    using connect_steps_work [OF assms] work_spawn [of "pn_ID p" infos] by (metis order_trans snd_conv)
  moreover have "ts' = ts \<or> work ts' < work ts" if "connect_step (q, ts) (q', ts')" for q' ts'
    using connect_step_work [OF that] by simp
  ultimately show ?thesis using can_finish [of q ts] by blast
qed

text \<open>
  The printed graph is the same whatever the order in which Go visits the two maps and
  whatever the unstable sort does with the order it is given.
\<close>

lemma print_graph_deterministic:
  assumes "ng_wf (pn_Graph p)"
  shows "PrintGraph cn ce sn se p = PrintGraph cn' ce' sn' se' p"
proof -
  let ?g = "pn_Graph p"
  have "distinct (map (\<lambda>n. sint (nn_ID n)) (GetNodes cn ?g))"
    using distinct_GetNodes [OF assms, of cn] by (auto simp: distinct_map inj_on_def intro: signed_word_eqI)
  then have "sort_Slice sn (\<lambda>n. sint (nn_ID n)) (GetNodes cn ?g) = sort_Slice sn' (\<lambda>n. sint (nn_ID n)) (GetNodes cn' ?g)"
    by (intro sort_Slice_unique mset_GetNodes)
  moreover have "sort_Slice se (\<lambda>e. Edge_Rank (ne_From e) (ne_To e)) (GetEdges ce ?g)
      = sort_Slice se' (\<lambda>e. Edge_Rank (ne_From e) (ne_To e)) (GetEdges ce' ?g)"
    using distinct_ranks [OF assms] by (intro sort_Slice_unique mset_GetEdges)
  ultimately show ?thesis by (simp only: PrintGraph_def)
qed

end
