(* ===== verification/Bootstrap.thy ===== *)
theory Bootstrap
  imports Go_Maps Go_Format Messages
begin

text \<open>
  The bootstrap server (\<open>cmd/bootstrap/main.go\<close>): the registry of peers, and the two queries
  that answer with some of them. The order of the map and the shuffle are choices.
\<close>

section \<open>Definitions\<close>

record bootstrap_server =
  bt_peers :: "(i32, peer_info) gomap"

definition NewBootstrapServer :: bootstrap_server where
  "NewBootstrapServer = \<lparr>bt_peers = []\<rparr>"

fun candidates_loop :: "i32 \<Rightarrow> (i32 \<times> peer_info) list \<Rightarrow> peer_info list \<Rightarrow> peer_info list" where
  "candidates_loop excludeID [] candidates = candidates"
| "candidates_loop excludeID ((peerID, p) # es) candidates =
     candidates_loop excludeID es (if peerID \<noteq> excludeID then candidates @ [p] else candidates)"

definition getRandomPeers :: "choices \<Rightarrow> choices \<Rightarrow> i32 \<Rightarrow> nat \<Rightarrow> bootstrap_server \<Rightarrow> peer_info list" where
  "getRandomPeers cs shuffle excludeID n s =
     (let candidates = pick_order shuffle (candidates_loop excludeID (gm_range cs (bt_peers s)) [])
      in if length candidates > n then take n candidates else candidates)"

definition RegisterPeer ::
  "int \<Rightarrow> choices \<Rightarrow> choices \<Rightarrow> register_request \<Rightarrow> bootstrap_server \<Rightarrow> bootstrap_server \<times> register_response" where
  "RegisterPeer now cs shuffle req s =
     (let s' = s\<lparr>bt_peers := gm_set (rgq_PeerId req)
                  \<lparr>pi_PeerId = rgq_PeerId req, pi_Address = rgq_Address req, pi_LastSeen = Unix now\<rparr> (bt_peers s)\<rparr>;
          otherPeers = getRandomPeers cs shuffle (rgq_PeerId req) 3 s'
      in (s', \<lparr>rgs_Success = True, rgs_Peers = otherPeers\<rparr>))"

text \<open>The loop of \<open>GetPeers\<close> appends and then checks the limit.\<close>

fun limit_loop :: "i32 \<Rightarrow> (i32 \<times> peer_info) list \<Rightarrow> peer_info list \<Rightarrow> peer_info list" where
  "limit_loop limit [] peers = peers"
| "limit_loop limit ((_, p) # es) peers =
     (let peers = peers @ [p]
      in if sint (word_of_nat (length peers) :: i32) \<ge> sint limit then peers else limit_loop limit es peers)"

definition GetPeers :: "choices \<Rightarrow> get_peers_request \<Rightarrow> bootstrap_server \<Rightarrow> get_peers_response" where
  "GetPeers cs req s =
     (let limit = (if sint (gpq_Limit req) \<le> 0 then 10 else gpq_Limit req)
      in \<lparr>gps_Peers = limit_loop limit (gm_range cs (bt_peers s)) []\<rparr>)"

text \<open>What the server prints, and its \<open>main\<close> up to serving; \<open>log.Fatalf\<close> is the \<open>Fail\<close>.\<close>

definition registered_line :: "register_request \<Rightarrow> string" where
  "registered_line req = ''[Bootstrap] Registered peer '' @ fmt_d (sint (rgq_PeerId req)) @ '' at '' @ rgq_Address req @ newline"

definition bootstrap_start :: "error option \<Rightarrow> (error, bootstrap_server \<times> string) outcome" where
  "bootstrap_start listen =
     (let port = '':5000'' in
      case listen of
        Some err \<Rightarrow> Fail (''[Bootstrap] Failed to listen on '' @ port @ '': '' @ err)
      | None \<Rightarrow> Return (NewBootstrapServer, ''[Bootstrap] Server listening on '' @ port @ newline))"

section \<open>Invariant\<close>

definition bt_wf :: "bootstrap_server \<Rightarrow> bool" where
  "bt_wf s \<longleftrightarrow> gm_wf (bt_peers s) \<and> (\<forall>(k, p) \<in> set (bt_peers s). pi_PeerId p = k)"

lemma bt_wf_New [simp]: "bt_wf NewBootstrapServer"
  by (simp add: bt_wf_def NewBootstrapServer_def)

lemma bt_wf_RegisterPeer: "bt_wf s \<Longrightarrow> bt_wf (fst (RegisterPeer now cs sh req s))"
  by (auto simp: bt_wf_def RegisterPeer_def Let_def set_gm_set)

lemma candidates_loop_eq:
  "candidates_loop x es acc = acc @ map snd (filter (\<lambda>e. fst e \<noteq> x) es)"
  by (induction x es acc rule: candidates_loop.induct) auto

lemma limit_loop_eq:
  assumes "0 < sint limit" and "length acc + length es < 2147483648" and "int (length acc) < sint limit"
  shows "limit_loop limit es acc = acc @ map snd (take (nat (sint limit) - length acc) es)"
  using assms
proof (induction limit es acc rule: limit_loop.induct)
  case (2 limit k p es peers)
  have w: "sint (word_of_nat (Suc (length peers)) :: i32) = int (Suc (length peers))"
    using "2.prems"(2) by (intro sint_small_nat) simp
  show ?case
  proof (cases "int (Suc (length peers)) \<ge> sint limit")
    case True
    then have "nat (sint limit) - length peers = 1" using "2.prems"(3) by simp
    then show ?thesis using True w by (simp add: Let_def)
  next
    case False
    then have "nat (sint limit) - length peers = Suc (nat (sint limit) - Suc (length peers))" by simp
    then show ?thesis using False w "2.IH" [OF refl] "2.prems" by (simp add: Let_def)
  qed
qed simp

lemma registered_ids:
  assumes "bt_wf s" and "set es \<subseteq> set (bt_peers s)" and "distinct (map fst es)"
  shows "distinct (map pi_PeerId (map snd es))" and "p \<in> set (map snd es) \<Longrightarrow> gm_get (bt_peers s) (pi_PeerId p) = Some p"
proof -
  have key: "pi_PeerId (snd e) = fst e" if "e \<in> set es" for e
    using assms(1,2) that by (fastforce simp: bt_wf_def)
  then have ids: "map pi_PeerId (map snd es) = map fst es" by simp
  show "distinct (map pi_PeerId (map snd es))" unfolding ids by (rule assms(3))
  show "gm_get (bt_peers s) (pi_PeerId p) = Some p" if "p \<in> set (map snd es)"
  proof -
    obtain e where e: "e \<in> set es" "p = snd e" using \<open>p \<in> set (map snd es)\<close> by auto
    then have "(pi_PeerId p, p) = e" using key [OF e(1)] by (simp add: prod_eq_iff)
    then have "(pi_PeerId p, p) \<in> set (bt_peers s)" using e(1) assms(2) by auto
    then show ?thesis using assms(1) by (simp add: bt_wf_def gm_get_iff)
  qed
qed

lemma distinct_keys_range: "bt_wf s \<Longrightarrow> distinct (map fst (gm_range cs (bt_peers s)))"
  using gm_wf_range [of cs "bt_peers s"] by (simp add: bt_wf_def gm_wf_def)

section \<open>Results\<close>

text \<open>The registered peers other than one.\<close>

definition others :: "i32 \<Rightarrow> bootstrap_server \<Rightarrow> peer_info set" where
  "others x s = {p. gm_get (bt_peers s) (pi_PeerId p) = Some p \<and> pi_PeerId p \<noteq> x}"

lemma others_image: "bt_wf s \<Longrightarrow> others x s = snd ` {e \<in> set (bt_peers s). fst e \<noteq> x}"
  by (force simp: others_def bt_wf_def gm_get_iff)

lemma random_peers:
  assumes "bt_wf s"
  shows "distinct (map pi_PeerId (getRandomPeers cs sh x n s))" and "set (getRandomPeers cs sh x n s) \<subseteq> others x s"
    and "length (getRandomPeers cs sh x n s) = min n (card (others x s))"
proof -
  let ?es = "filter (\<lambda>e. fst e \<noteq> x) (gm_range cs (bt_peers s))"
  let ?c = "pick_order sh (map snd ?es)"
  have r: "getRandomPeers cs sh x n s = take n ?c"
    by (simp add: getRandomPeers_def Let_def candidates_loop_eq)
  have d: "distinct (map fst ?es)" using distinct_keys_range [OF assms] by (rule distinct_map_filter)
  have "set ?es \<subseteq> set (bt_peers s)" by auto
  note ids = registered_ids(1) [OF assms this d]
  have "mset (map pi_PeerId ?c) = mset (map pi_PeerId (map snd ?es))" by (simp only: mset_map mset_pick_order)
  then have dc: "distinct (map pi_PeerId ?c)" using ids by (metis mset_eq_imp_distinct_iff)
  then show "distinct (map pi_PeerId (getRandomPeers cs sh x n s))"
    unfolding r by (simp add: take_map [symmetric])
  have set_c: "set ?c = others x s" by (auto simp: others_image [OF assms])
  then show "set (getRandomPeers cs sh x n s) \<subseteq> others x s" unfolding r by (metis set_take_subset)
  have "distinct ?c" using dc by (simp add: distinct_map)
  then have "length ?c = card (others x s)" using set_c by (metis distinct_card)
  then show "length (getRandomPeers cs sh x n s) = min n (card (others x s))" unfolding r by simp
qed

text \<open>
  Registration stores the peer under its identifier, replacing an earlier entry and
  touching no other, and answers with three different registered peers other than the
  caller, or with all of them when there are fewer than three.
\<close>

lemma register_answers_others:
  assumes "bt_wf s" and "RegisterPeer now cs sh req s = (s', resp)"
  shows "bt_wf s' \<and> rgs_Success resp
    \<and> (\<forall>k. gm_get (bt_peers s') k = (if k = rgq_PeerId req
          then Some \<lparr>pi_PeerId = k, pi_Address = rgq_Address req, pi_LastSeen = Unix now\<rparr> else gm_get (bt_peers s) k))
    \<and> distinct (map pi_PeerId (rgs_Peers resp)) \<and> set (rgs_Peers resp) \<subseteq> others (rgq_PeerId req) s
    \<and> length (rgs_Peers resp) = min 3 (card (others (rgq_PeerId req) s))"
proof -
  let ?x = "rgq_PeerId req"
  have wf': "bt_wf s'" using bt_wf_RegisterPeer [OF assms(1), of now cs sh req] assms(2) by simp
  have s': "bt_peers s' = gm_set ?x \<lparr>pi_PeerId = ?x, pi_Address = rgq_Address req, pi_LastSeen = Unix now\<rparr> (bt_peers s)"
    and resp: "resp = \<lparr>rgs_Success = True, rgs_Peers = getRandomPeers cs sh ?x 3 s'\<rparr>"
    using assms(2) by (auto simp: RegisterPeer_def Let_def)
  have "others ?x s' = others ?x s" unfolding others_def s' by (auto simp: gm_simps)
  then show ?thesis using wf' resp random_peers [OF wf', of cs sh ?x 3] s' by (auto simp: gm_simps)
qed

definition sample_registry :: bootstrap_server where
  "sample_registry = \<lparr>bt_peers = map (\<lambda>i. (i, \<lparr>pi_PeerId = i, pi_Address = ''localhost'', pi_LastSeen = 0\<rparr>)) [1, 2, 3, 4]\<rparr>"

lemma sample_registry_wf: "bt_wf sample_registry"
  by (simp add: bt_wf_def gm_wf_def sample_registry_def)

text \<open>
  \<open>GetPeers\<close> answers with different registered peers, as many as the limit allows, where a
  limit that is not positive means ten.
\<close>

lemma get_peers_respects_limit:
  assumes "bt_wf s" and "length (bt_peers s) < 2147483648"
  shows "let ps = gps_Peers (GetPeers cs \<lparr>gpq_Limit = lmt\<rparr> s) in
    distinct (map pi_PeerId ps) \<and> (\<forall>p \<in> set ps. gm_get (bt_peers s) (pi_PeerId p) = Some p)
    \<and> length ps = min (if sint lmt \<le> 0 then 10 else nat (sint lmt)) (length (bt_peers s))"
proof -
  let ?lmt = "if sint lmt \<le> 0 then 10 else lmt" and ?r = "gm_range cs (bt_peers s)"
  let ?n = "if sint lmt \<le> 0 then 10 else nat (sint lmt)"
  have n: "nat (sint ?lmt) = ?n" "0 < sint ?lmt" by simp_all
  have ps: "gps_Peers (GetPeers cs \<lparr>gpq_Limit = lmt\<rparr> s) = map snd (take ?n ?r)"
    using limit_loop_eq [of ?lmt "[]" ?r] n assms(2)
    by (cases "sint lmt \<le> 0") (simp_all add: GetPeers_def Let_def)
  have d: "distinct (map fst (take ?n ?r))"
    using distinct_keys_range [OF assms(1), of cs] by (simp add: take_map [symmetric])
  have "set (take ?n ?r) \<subseteq> set (bt_peers s)" using set_take_subset [of ?n ?r] by simp
  note ids = registered_ids [OF assms(1) this d]
  show ?thesis unfolding ps Let_def using ids by simp
qed

end
