(* ===== verification/Grpc_Server.thy ===== *)
theory Grpc_Server
  imports Overlay_Results Bootstrap
begin

text \<open>
  The RPC handlers of a peer (\<open>internal/network/grpc_server.go\<close>), each a function of the request
  and the peer (and the disk, the clock and the map orders where it uses them) to the new
  peer and the response.
\<close>

section \<open>Discovery and routing\<close>

definition Ping :: "int \<Rightarrow> ping_request \<Rightarrow> 'c peer_node \<Rightarrow> ping_response" where
  "Ping now req p = \<lparr>pgs_ResponderId = pn_ID p, pgs_Timestamp = now\<rparr>"

definition GetNetworkGraph :: "choices \<Rightarrow> choices \<Rightarrow> graph_request \<Rightarrow> 'c peer_node \<Rightarrow> graph_response" where
  "GetNetworkGraph cn ce req p = GetGraphProto cn ce p"

definition NotifyNewPeer ::
  "int \<Rightarrow> new_peer_notification \<Rightarrow> 'c peer_node \<Rightarrow> 'c peer_node \<times> notify_response" where
  "NotifyNewPeer now req p =
     (p\<lparr>pn_Graph := AddNode now (npn_PeerId req) (npn_Address req) (pn_Graph p)\<rparr>, \<lparr>nrs_Acknowledged = True\<rparr>)"

definition srv_CalculateRoute ::
  "(nat \<Rightarrow> int) \<Rightarrow> (nat \<Rightarrow> choices) \<Rightarrow> choices \<Rightarrow> choices \<Rightarrow> route_request \<Rightarrow> 'c peer_node
   \<Rightarrow> ('c peer_node \<times> (error, route_response) outcome) option" where
  "srv_CalculateRoute clk ord cn ce req p =
     map_option
       (\<lambda>(dr, r). (p\<lparr>pn_Router := dr\<rparr>,
          bind_outcome r (\<lambda>route. Return \<lparr>rrs_Path = Path route, rrs_TotalLatencyMs = TotalLatency route,
                                          rrs_Hops = Hops route\<rparr>)))
       (CalculateRoute clk ord (routing_view cn ce (pn_Graph p)) (rrq_FromPeerId req) (rrq_ToPeerId req) (pn_Router p))"

text \<open>\<open>int32(cache.TTL().Seconds())\<close>: whole seconds.\<close>

definition GetRouteCache :: "int \<Rightarrow> choices \<Rightarrow> get_cache_request \<Rightarrow> 'c peer_node \<Rightarrow> get_cache_response" where
  "GetRouteCache now cs req p =
     (let cache = GetCache (pn_Router p);
          routes = cache_Entries now cs cache;
          ttlSeconds = word_of_int (go_quot (cache_TTL cache) 1000000000)
      in \<lparr>gcs_Entries = map (\<lambda>r. \<lparr>rce_FromPeerId = FromPeerID r, rce_ToPeerId = ToPeerID r, rce_Path = Path r,
              rce_TotalLatencyMs = TotalLatency r, rce_Hops = Hops r, rce_CachedAt = Unix (CreatedAt r),
              rce_TtlSeconds = ttlSeconds\<rparr>) routes\<rparr>)"

definition InvalidateRouteCache ::
  "invalidate_cache_request \<Rightarrow> 'c peer_node \<Rightarrow> 'c peer_node \<times> invalidate_cache_response" where
  "InvalidateRouteCache req p =
     (let (dr, cleared) = InvalidateCache (pn_Router p)
      in (p\<lparr>pn_Router := dr\<rparr>, \<lparr>ics_Success = True, ics_EntriesCleared = word_of_nat cleared\<rparr>))"

text \<open>What the handlers write to the standard output.\<close>

definition GetNetworkGraph_output :: "graph_request \<Rightarrow> 'c peer_node \<Rightarrow> string" where
  "GetNetworkGraph_output req p =
     peer_tag p @ ''Graph requested by peer-'' @ fmt_d (sint (grq_RequesterId req)) @ newline"

definition NotifyNewPeer_output :: "new_peer_notification \<Rightarrow> 'c peer_node \<Rightarrow> string" where
  "NotifyNewPeer_output req p =
     peer_tag p @ ''Notified about new peer-'' @ fmt_d (sint (npn_PeerId req)) @ '' at '' @ npn_Address req @ newline"

definition CalculateRoute_output :: "route_request \<Rightarrow> (error, 'r) outcome \<Rightarrow> 'c peer_node \<Rightarrow> string" where
  "CalculateRoute_output req r p =
     (case r of
        Fail err \<Rightarrow> peer_tag p @ ''Route calculation failed ('' @ fmt_d (sint (rrq_FromPeerId req)) @ '' '' @ arrow @ '' ''
          @ fmt_d (sint (rrq_ToPeerId req)) @ ''): '' @ err @ newline
      | _ \<Rightarrow> [])"

definition InvalidateRouteCache_output :: "'c peer_node \<Rightarrow> string" where
  "InvalidateRouteCache_output p =
     (let (dr, cleared) = InvalidateCache (pn_Router p)
      in peer_tag p @ ''Route cache invalidated ('' @ fmt_d (int cleared) @ '' entries cleared)'' @ newline)"

section \<open>Chunks\<close>

definition HasChunk :: "has_chunk_request \<Rightarrow> 'c peer_node \<Rightarrow> (error, has_chunk_response) outcome" where
  "HasChunk req p =
     bind_outcome (MightHaveChunk (pn_Storage p) (hcq_FileId req) (hcq_ChunkIndex req)) (\<lambda>mightHave.
     let confirmed = (if mightHave then ConfirmHasChunk (pn_Storage p) (hcq_FileId req) (hcq_ChunkIndex req) else False)
     in Return \<lparr>hcs_MightHave = mightHave, hcs_Confirmed = confirmed\<rparr>)"

definition GetBloomFilter :: "get_bloom_filter_request \<Rightarrow> 'c peer_node \<Rightarrow> get_bloom_filter_response" where
  "GetBloomFilter req p =
     (case Serialize (sm_Bloom (pn_Storage p)) of (arr, nb, nh, ic) \<Rightarrow>
        \<lparr>gbs_BitArray = arr, gbs_NumBits = nb, gbs_NumHashFunctions = nh, gbs_ItemsAdded = ic\<rparr>)"

text \<open>A failed download is a response, not an error of the call.\<close>

definition srv_DownloadChunk ::
  "download_chunk_request \<Rightarrow> file_system \<Rightarrow> 'c peer_node \<Rightarrow> (error, download_chunk_response) outcome" where
  "srv_DownloadChunk req fs p =
     (case DownloadChunk (pn_Storage p) fs (dcq_FileId req) (dcq_ChunkIndex req) of
        Fail e \<Rightarrow> Return \<lparr>dcs_Data = [], dcs_Sha256Hash = [], dcs_Success = False, dcs_ErrorMessage = e\<rparr>
      | Return (d, hash) \<Rightarrow>
          Return \<lparr>dcs_Data = d, dcs_Sha256Hash = hash, dcs_Success = True, dcs_ErrorMessage = []\<rparr>
      | Panic q \<Rightarrow> Panic q)"

definition chunk_infos :: "file_metadata \<Rightarrow> chunk_info list" where
  "chunk_infos metadata =
     map (\<lambda>(i, hash). \<lparr>ci_FileId = fm_FileID metadata, ci_ChunkIndex = word_of_nat i, ci_ChunkSize = 0,
                       ci_Sha256Hash = hash\<rparr>)
       (enumerate 0 (fm_ChunkHashes metadata))"

definition srv_UploadFile ::
  "string \<Rightarrow> upload_file_request \<Rightarrow> 'c peer_node \<Rightarrow> file_system
   \<Rightarrow> ('c peer_node \<times> file_system) \<times> (error, upload_file_response) outcome" where
  "srv_UploadFile fileID req p fs =
     (case UploadFile fileID (ufq_FileName req) (ufq_FileData req) (pn_Storage p) fs of
        ((sm, fs'), r) \<Rightarrow>
          ((p\<lparr>pn_Storage := sm\<rparr>, fs'),
           bind_outcome r (\<lambda>metadata.
             Return \<lparr>ufs_FileId = fm_FileID metadata, ufs_TotalChunks = fm_TotalChunks metadata,
                     ufs_Chunks = chunk_infos metadata\<rparr>)))"

section \<open>Results\<close>

text \<open>
  The chunk query tells the truth about the store: on a peer whose filter and store agree
  it returns, it confirms exactly the chunks the store has, and what it confirms it also
  reports as possibly present.
\<close>

lemma has_chunk_truthful:
  assumes "synced (pn_Storage p)"
  shows "\<exists>r. HasChunk \<lparr>hcq_FileId = f, hcq_ChunkIndex = i\<rparr> p = Return r
    \<and> (hcs_Confirmed r \<longleftrightarrow> store_HasChunk (sm_Store (pn_Storage p)) f i)
    \<and> (hcs_Confirmed r \<longrightarrow> hcs_MightHave r)"
proof -
  have "bloom_wf (sm_Bloom (pn_Storage p))" using assms by (simp add: synced_def)
  then obtain b where "MightHaveChunk (pn_Storage p) f i = Return b"
    using bloom.test_law unfolding MightHaveChunk_def by blast
  then show ?thesis using assms by (auto simp: HasChunk_def synced_def ConfirmHasChunk_def Let_def)
qed

text \<open>
  The filter sent to another peer answers there as it does here: deserializing the response
  of \<open>GetBloomFilter\<close> and testing the key of a chunk gives what \<open>MightHaveChunk\<close> gives locally,
  however many items were added.
\<close>

lemma remote_filter_agrees:
  assumes "bloom_wf (sm_Bloom (pn_Storage p))" and "numHashes (sm_Bloom (pn_Storage p)) \<in> {-2147483648..2147483647}"
  shows "(let r = GetBloomFilter req p in
      MightContain (DeserializeBloomFilter (gbs_BitArray r) (gbs_NumBits r) (gbs_NumHashFunctions r) (gbs_ItemsAdded r))
        (ChunkKey f i)) = MightHaveChunk (pn_Storage p) f i"
proof -
  let ?bf = "sm_Bloom (pn_Storage p)" and ?r = "GetBloomFilter req p"
  let ?b = "DeserializeBloomFilter (gbs_BitArray ?r) (gbs_NumBits ?r) (gbs_NumHashFunctions ?r) (gbs_ItemsAdded ?r)"
  have s: "sint (word_of_int j :: i32) = j" if "j \<in> {-2147483648..2147483647}" for j
    using that by (simp add: signed_of_int signed_take_bit_int_eq_self)
  have "numBits ?bf \<in> {-2147483648..2147483647}" using assms(1) by (simp add: bloom_wf_def)
  then have b: "bitArray ?b = bitArray ?bf" "numBits ?b = numBits ?bf" "numHashes ?b = numHashes ?bf"
    using s assms(2) by (simp_all add: GetBloomFilter_def Serialize_def DeserializeBloomFilter_def)
  then have "bloom_wf ?b" "bits_of ?b = bits_of ?bf" using assms(1) by (simp_all add: bloom_wf_def bits_of_def)
  then show ?thesis using b assms(1) by (simp add: Let_def MightHaveChunk_def MightContain_wf)
qed

text \<open>
  C3: Upload and download, end to end. When a non-empty file is uploaded to a peer without a
  write error, the response names the chunks in order with their digests (and a size of 0,
  which is never filled in), and downloading each named chunk succeeds with data of that
  digest; the data concatenated in that order are the uploaded file.
\<close>

theorem upload_then_download:
  assumes "faultless fs" and "cs_baseDir (sm_Store (pn_Storage p)) \<noteq> []" and "synced (pn_Storage p)"
    and "d \<noteq> []" and "int (length d) \<le> max_file"
    and "srv_UploadFile fileID \<lparr>ufq_FileName = name, ufq_FileData = d\<rparr> p fs = ((p', fs'), r)"
  shows "\<exists>resp datas. r = Return resp \<and> ufs_FileId resp = fileID
    \<and> sint (ufs_TotalChunks resp) = int (length (ufs_Chunks resp))
    \<and> map (\<lambda>c. srv_DownloadChunk \<lparr>dcq_FileId = ci_FileId c, dcq_ChunkIndex = ci_ChunkIndex c\<rparr> fs'' p') (ufs_Chunks resp)
        = map (\<lambda>x. Return \<lparr>dcs_Data = x, dcs_Sha256Hash = ComputeHash x, dcs_Success = True, dcs_ErrorMessage = []\<rparr>) datas
    \<and> map ci_Sha256Hash (ufs_Chunks resp) = map ComputeHash datas
    \<and> (\<forall>c \<in> set (ufs_Chunks resp). ci_ChunkSize c = 0)
    \<and> concat datas = d"
proof -
  let ?m = "split_metadata fileID name d" and ?n = "chunk_count d"
  obtain sm' r' where u: "UploadFile fileID name d (pn_Storage p) fs = ((sm', fs'), r')" "p' = p\<lparr>pn_Storage := sm'\<rparr>"
    "r = bind_outcome r' (\<lambda>metadata. Return \<lparr>ufs_FileId = fm_FileID metadata, ufs_TotalChunks = fm_TotalChunks metadata,
                     ufs_Chunks = chunk_infos metadata\<rparr>)"
    using assms(6) by (auto simp: srv_UploadFile_def split: prod.splits)
  note up = upload_available [OF assms(1-5) u(1)]
  have chunks: "chunk_infos ?m = map (\<lambda>i. \<lparr>ci_FileId = fileID, ci_ChunkIndex = word_of_nat i, ci_ChunkSize = 0,
      ci_Sha256Hash = ComputeHash (piece d i)\<rparr>) [0..<?n]"
    by (simp add: chunk_infos_def split_metadata_def Let_def enumerate_map_upt)
  have "concat (map (piece d) [0..<?n]) = d" using chunk_count_covers [of d] by (simp add: concat_pieces)
  moreover have "sint (fm_TotalChunks ?m) = int ?n"
    using num_chunks_value(1) [OF assms(5)] by (simp add: split_metadata_def Let_def)
  moreover have "fm_FileID ?m = fileID" by (simp add: split_metadata_def Let_def)
  moreover have "srv_DownloadChunk \<lparr>dcq_FileId = fileID, dcq_ChunkIndex = word_of_nat i\<rparr> fs'' p'
      = Return \<lparr>dcs_Data = piece d i, dcs_Sha256Hash = ComputeHash (piece d i), dcs_Success = True, dcs_ErrorMessage = []\<rparr>"
    if "i < ?n" for i
    using up(2) [OF that] u(2) by (simp add: srv_DownloadChunk_def)
  ultimately show ?thesis
    unfolding u(3) up(1)
    by (rule_tac x = "\<lparr>ufs_FileId = fileID, ufs_TotalChunks = fm_TotalChunks ?m, ufs_Chunks = chunk_infos ?m\<rparr>" in exI,
        rule_tac x = "map (piece d) [0..<?n]" in exI) (simp add: chunks comp_def)
qed

theorem upload_then_download_witness:
  "\<exists>resp datas. snd (srv_UploadFile ''id'' \<lparr>ufq_FileName = ''n'', ufq_FileData = [1, 2]\<rparr> sample_peer (no_faults [])) = Return resp
    \<and> map ci_Sha256Hash (ufs_Chunks resp) = map ComputeHash datas \<and> concat datas = [1, 2]"
proof -
  obtain p' fs' r where u: "srv_UploadFile ''id'' \<lparr>ufq_FileName = ''n'', ufq_FileData = [1, 2]\<rparr> sample_peer (no_faults []) = ((p', fs'), r)"
    by (metis surj_pair)
  have st: "pn_Storage sample_peer = sample_manager" by (simp add: sample_peer_def)
  have "cs_baseDir (sm_Store (pn_Storage sample_peer)) \<noteq> []" "synced (pn_Storage sample_peer)" "[1, 2 :: byte] \<noteq> []"
    "int (length [1, 2 :: byte]) \<le> max_file"
    using sample_manager_synced by (simp_all add: st max_file_def) (simp add: sample_manager_def sample_store_def)
  from upload_then_download [OF no_faults_faultless this u, of fs'] show ?thesis using u by auto
qed

end
