(* ===== verification/Peer_System.thy ===== *)
theory Peer_System
  imports Grpc_Server
begin

text \<open>
  A whole peer over its life: created, registered, connecting its goroutines while its server
  answers requests, in any interleaving. The graph a peer builds is a star around itself,
  and so every route it can ever answer with is a direct one.
\<close>

section \<open>Runs of a peer\<close>

text \<open>
  A state is the peer with its goroutines. No peer is given the identifier -1, which the
  route search uses as its sentinel. The disk may differ from step to step. A panic in a
  handler ends the process, so no state follows it.
\<close>

inductive peer_run :: "'c connect_state \<Rightarrow> bool" where
  created: "close_float fl \<Longrightarrow> NewPeerNode fl n port addr fs = Return p \<Longrightarrow> n \<noteq> -1 \<Longrightarrow> peer_run (p, [])"
| registered: "peer_run (p, ts) \<Longrightarrow> RegisterWithBootstrap now dial rpc p = (p', r) \<Longrightarrow> peer_run (p', ts)"
| spawned: "peer_run (p, ts) \<Longrightarrow> all_finished ts \<Longrightarrow> \<forall>info \<in> set infos. pi_PeerId info \<noteq> -1
    \<Longrightarrow> peer_run (p, spawn_tasks (pn_ID p) infos)"
| goroutine: "peer_run (p, ts) \<Longrightarrow> i < length ts \<Longrightarrow> ts ! i = (info, pc) \<Longrightarrow> timely inp
    \<Longrightarrow> task_step inp info pc p = (pc', p') \<Longrightarrow> peer_run (p', ts[i := (info, pc')])"
| notified: "peer_run (p, ts) \<Longrightarrow> npn_PeerId req \<noteq> -1 \<Longrightarrow> NotifyNewPeer now req p = (p', resp) \<Longrightarrow> peer_run (p', ts)"
| routed: "peer_run (p, ts) \<Longrightarrow> srv_CalculateRoute clk ord cn ce req p = Some (p', r) \<Longrightarrow> peer_run (p', ts)"
| invalidated: "peer_run (p, ts) \<Longrightarrow> InvalidateRouteCache req p = (p', resp) \<Longrightarrow> peer_run (p', ts)"
| uploaded: "peer_run (p, ts) \<Longrightarrow> srv_UploadFile fileID req p fs = ((p', fs'), r) \<Longrightarrow> \<forall>q. r \<noteq> Panic q
    \<Longrightarrow> peer_run (p', ts)"
| closed: "peer_run (p, ts) \<Longrightarrow> Close cs close p = (p', line) \<Longrightarrow> peer_run (p', ts)"

section \<open>Stars\<close>

definition star_edges :: "i32 \<Rightarrow> network_graph \<Rightarrow> bool" where
  "star_edges self g \<longleftrightarrow> (\<forall>f t l. edge_map g (f, t) = Some l \<longrightarrow>
     f = self \<and> t \<noteq> self \<and> 1 \<le> l \<and> l \<le> 60000 \<and> node_map g t \<noteq> None)"

text \<open>A direct route from a peer.\<close>

definition direct_route :: "i32 \<Rightarrow> i32 \<Rightarrow> i32 \<Rightarrow> route \<Rightarrow> bool" where
  "direct_route self f t r \<longleftrightarrow> f = self \<and> t \<noteq> self \<and> Path r = [f, t] \<and> Hops r = 1
     \<and> 1 \<le> TotalLatency r \<and> TotalLatency r \<le> 60000"

definition cache_direct :: "i32 \<Rightarrow> route_cache \<Rightarrow> bool" where
  "cache_direct self rc \<longleftrightarrow> cache_wf rc \<and> (\<forall>now f t r. cache_Get now f t rc = Some r \<longrightarrow> direct_route self f t r)"

definition task_ok :: "'c peer_node \<Rightarrow> peer_info \<times> 'c task_pc \<Rightarrow> bool" where
  "task_ok p e \<longleftrightarrow> pi_PeerId (fst e) \<noteq> pn_ID p \<and> pi_PeerId (fst e) \<noteq> -1
     \<and> (has_node (snd e) \<longrightarrow> node_map (pn_Graph p) (pi_PeerId (fst e)) \<noteq> None)
     \<and> (\<forall>l. held_latency (snd e) = Some l \<longrightarrow> 1 \<le> l \<and> l \<le> 60000)"

definition tasks_ok :: "'c peer_node \<Rightarrow> (peer_info \<times> 'c task_pc) list \<Rightarrow> bool" where
  "tasks_ok p ts \<longleftrightarrow> (\<forall>e \<in> set ts. task_ok p e)"

text \<open>A change that keeps the identifier and forgets no node keeps the tasks in order.\<close>

lemma task_ok_mono:
  assumes "task_ok p e" and "pn_ID p' = pn_ID p"
    and "dom (node_map (pn_Graph p)) \<subseteq> dom (node_map (pn_Graph p'))"
  shows "task_ok p' e"
  using assms unfolding task_ok_def domIff by auto

lemma tasks_ok_mono:
  "tasks_ok p ts \<Longrightarrow> pn_ID p' = pn_ID p \<Longrightarrow> dom (node_map (pn_Graph p)) \<subseteq> dom (node_map (pn_Graph p'))
   \<Longrightarrow> tasks_ok p' ts"
  unfolding tasks_ok_def using task_ok_mono by blast

lemma tasks_ok_update: "tasks_ok p ts \<Longrightarrow> task_ok p e \<Longrightarrow> tasks_ok p (ts[i := e])"
  using set_update_subset_insert [of ts i e] unfolding tasks_ok_def by blast

definition graph_inv :: "'c connect_state \<Rightarrow> bool" where
  "graph_inv s \<longleftrightarrow> (case s of (p, ts) \<Rightarrow> pn_ID p \<noteq> -1 \<and> ng_wf (pn_Graph p) \<and> node_map (pn_Graph p) (-1) = None
     \<and> star_edges (pn_ID p) (pn_Graph p) \<and> tasks_ok p ts)"

definition peer_inv :: "'c connect_state \<Rightarrow> bool" where
  "peer_inv s \<longleftrightarrow> (case s of (p, ts) \<Rightarrow> pn_ID p \<noteq> -1 \<and> ng_wf (pn_Graph p) \<and> node_map (pn_Graph p) (-1) = None
     \<and> star_edges (pn_ID p) (pn_Graph p) \<and> tasks_ok p ts \<and> cache_direct (pn_ID p) (dr_cache (pn_Router p)))"

lemma peer_inv_iff: "peer_inv (p, ts) \<longleftrightarrow> graph_inv (p, ts) \<and> cache_direct (pn_ID p) (dr_cache (pn_Router p))"
  by (auto simp: peer_inv_def graph_inv_def)

lemma card_peers: "card (A :: i32 set) \<le> 4294967296"
proof -
  have "card A \<le> card (UNIV :: i32 set)" by (intro card_mono) auto
  then show ?thesis by (simp add: card_word)
qed

lemma star_graph_ok:
  assumes "ng_wf g" and "node_map g (-1) = None" and "star_edges self g"
  shows "graph_ok 60000 (routing_view cn ce g)"
proof (rule routing_view_ok [OF assms(1,2)])
  show "0 \<le> l \<and> l \<le> 60000" if "edge_map g ft = Some l" for ft l
  proof -
    have "edge_map g (fst ft, snd ft) = Some l" using that by simp
    then have "1 \<le> l \<and> l \<le> 60000" using assms(3) unfolding star_edges_def by blast
    then show ?thesis by simp
  qed
  have "int (card (dom (node_map g))) \<le> 4294967296" using card_peers [of "dom (node_map g)"] by simp
  then show "60000 * int (card (dom (node_map g))) < inf64" by (simp add: inf64_def max_int64_def)
qed simp

lemma star_edge_list:
  assumes "ng_wf g" and "star_edges self g" and "e \<in> set (GetEdgeList (routing_view cn ce g))"
  shows "ge_From e = self" and "ge_To e \<noteq> self" and "1 \<le> ge_LatencyMs e" and "ge_LatencyMs e \<le> 60000"
    and "edge_map g (ge_From e, ge_To e) = Some (ge_LatencyMs e)"
proof -
  have "e = \<lparr>ge_From = ge_From e, ge_To = ge_To e, ge_LatencyMs = ge_LatencyMs e\<rparr>" by simp
  moreover have "e \<in> set (peer_GetEdgeList ce g)" using assms(3) by (simp add: routing_view_def)
  ultimately have "\<lparr>ge_From = ge_From e, ge_To = ge_To e, ge_LatencyMs = ge_LatencyMs e\<rparr> \<in> set (peer_GetEdgeList ce g)"
    by argo
  then show "edge_map g (ge_From e, ge_To e) = Some (ge_LatencyMs e)" by (simp only: edge_list_iff [OF assms(1)])
  then show "ge_From e = self" "ge_To e \<noteq> self" "1 \<le> ge_LatencyMs e" "ge_LatencyMs e \<le> 60000"
    using assms(2) unfolding star_edges_def by blast+
qed

text \<open>A walk in a star has at most one edge.\<close>

lemma star_walk:
  assumes "ng_wf g" and "star_edges self g" and "graph_walk (routing_view cn ce g) u p v" and "u \<noteq> v"
  shows "u = self \<and> v \<noteq> self \<and> walk_nodes u p = [u, v] \<and> 1 \<le> walk_latency p \<and> walk_latency p \<le> 60000
    \<and> edge_map g (u, v) = Some (walk_latency p)"
proof -
  obtain e es where p: "p = e # es" using assms(3,4) by (cases p) auto
  then have e: "e \<in> set (GetEdgeList (routing_view cn ce g))" "ge_From e = u"
    "graph_walk (routing_view cn ce g) (ge_To e) es v" using assms(3) by auto
  note star = star_edge_list [OF assms(1,2)]
  have "es = []"
  proof (rule ccontr)
    assume "es \<noteq> []"
    then obtain e' es' where "es = e' # es'" by (cases es) auto
    then have "e' \<in> set (GetEdgeList (routing_view cn ce g))" "ge_From e' = ge_To e" using e(3) by auto
    then show False using star(1) [of e'] star(2) [OF e(1)] by simp
  qed
  then show ?thesis using e star [OF e(1)] p by (simp add: walk_nodes_def)
qed

lemma CalculateRoute_star:
  assumes "ng_wf g" and "node_map g (-1) = None" and "star_edges self g" and "cache_direct self (dr_cache dr)"
    and "CalculateRoute clk ord (routing_view cn ce g) f t dr = Some (dr', r)"
  shows "cache_direct self (dr_cache dr')"
    and "r = Return r' \<Longrightarrow> (f = t \<and> Path r' = [f] \<and> TotalLatency r' = 0 \<and> Hops r' = 0) \<or> direct_route self f t r'"
proof -
  have both: "cache_direct self (dr_cache dr') \<and> (\<forall>r'. r = Return r' \<longrightarrow>
      (f = t \<and> Path r' = [f] \<and> TotalLatency r' = 0 \<and> Hops r' = 0) \<or> direct_route self f t r')"
    using assms(5)
  proof (cases rule: CalculateRoute_cases)
    case (self r')
    then show ?thesis using assms(4) by auto
  next
    case (hit r')
    then show ?thesis using assms(4) by (auto simp: cache_direct_def)
  next
    case (found path l r')
    obtain q where q: "graph_walk (routing_view cn ce g) f q t" "path = walk_nodes f q" "l = walk_latency q"
      using dijkstra_Return [OF star_graph_ok [OF assms(1-3)] found(3)] by blast
    note star = star_walk [OF assms(1,3) q(1) found(1)]
    then have "path = [f, t]" unfolding q(2) by blast
    then have d: "direct_route self f t r'"
      using star q(3) found(5) by (simp add: direct_route_def)
    have ends: "FromPeerID r' = f" "ToPeerID r' = t" using found(5) by simp_all
    have "cache_direct self (dr_cache dr')"
      using assms(4) d ends found(6) by (auto simp: cache_direct_def cache_Get_Set split: if_splits)
    then show ?thesis using d found(4) by simp
  next
    case (error e)
    then show ?thesis using assms(4) by simp
  qed
  then show "cache_direct self (dr_cache dr')" by blast
  show "r = Return r' \<Longrightarrow> (f = t \<and> Path r' = [f] \<and> TotalLatency r' = 0 \<and> Hops r' = 0) \<or> direct_route self f t r'"
    using both by blast
qed

section \<open>The invariant\<close>

lemma star_AddNode: "star_edges self g \<Longrightarrow> star_edges self (AddNode now n a g)"
  by (auto simp: star_edges_def overlay_simps)

lemma graph_inv_AddNode:
  assumes "graph_inv (p, ts)" and "n \<noteq> -1"
  shows "graph_inv (p\<lparr>pn_Graph := AddNode now n a (pn_Graph p)\<rparr>, ts)"
  using assms by (auto simp: graph_inv_def overlay_simps star_AddNode intro!: tasks_ok_mono [of p])

lemma graph_inv_goroutine:
  assumes inv: "graph_inv (p, ts)" and i: "i < length ts" "ts ! i = (info, pc)" and "timely inp"
    and st: "task_step inp info pc p = (pc', p')"
  shows "graph_inv (p', ts[i := (info, pc')])"
proof -
  note step = task_step_graph [OF st]
  have mem: "(info, pc) \<in> set ts" using i by (metis nth_mem)
  then have ids: "pi_PeerId info \<noteq> pn_ID p" "pi_PeerId info \<noteq> -1"
    and node: "has_node pc \<longrightarrow> node_map (pn_Graph p) (pi_PeerId info) \<noteq> None"
    and lat: "\<forall>l. held_latency pc = Some l \<longrightarrow> 1 \<le> l \<and> l \<le> 60000"
    using inv by (auto simp: graph_inv_def tasks_ok_def task_ok_def)
  have keep: "node_map (pn_Graph p) k \<noteq> None \<Longrightarrow> node_map (pn_Graph p') k \<noteq> None" for k using step(6) by blast
  have tasks: "tasks_ok p ts" using inv by (simp add: graph_inv_def)
  have new: "node_map (pn_Graph p') (-1) = None"
  proof -
    have "-1 \<notin> dom (node_map (pn_Graph p))" using inv by (auto simp: graph_inv_def)
    then have "-1 \<notin> dom (node_map (pn_Graph p'))" unfolding step(6) using ids(2) by auto
    then show ?thesis by (simp add: domIff)
  qed
  have "star_edges (pn_ID p) (pn_Graph p')"
    unfolding star_edges_def
  proof (intro allI impI)
    fix f t l
    assume e: "edge_map (pn_Graph p') (f, t) = Some l"
    show "f = pn_ID p \<and> t \<noteq> pn_ID p \<and> 1 \<le> l \<and> l \<le> 60000 \<and> node_map (pn_Graph p') t \<noteq> None"
    proof (cases "edge_map (pn_Graph p) (f, t) = Some l")
      case True
      moreover have "star_edges (pn_ID p) (pn_Graph p)" using inv by (simp add: graph_inv_def)
      ultimately show ?thesis using keep unfolding star_edges_def by blast
    next
      case False
      then obtain l' where pc: "pc = Node_Added l'" using e step(5) by (cases pc) auto
      then have "f = pn_ID p" "t = pi_PeerId info" "l = l'" using e step(5) False by (auto split: if_splits)
      then show ?thesis using ids(1) lat pc node keep by auto
    qed
  qed
  moreover have "tasks_ok p' (ts[i := (info, pc')])"
  proof (rule tasks_ok_update)
    show "tasks_ok p' ts" by (rule tasks_ok_mono [OF tasks step(1)]) (simp add: step(6))
    have "node_map (pn_Graph p') (pi_PeerId info) \<noteq> None" if has: "has_node pc'"
    proof (cases "has_node pc")
      case True
      then show ?thesis using node keep by blast
    next
      case False
      then have "pi_PeerId info \<in> dom (node_map (pn_Graph p'))" unfolding step(6) using has by simp
      then show ?thesis by (simp only: domIff not_False_eq_True)
    qed
    moreover have "1 \<le> l \<and> l \<le> 60000" if "held_latency pc' = Some l" for l
      using task_step_latency [OF st assms(4) that] lat by blast
    ultimately show "task_ok p' (info, pc')"
      unfolding task_ok_def fst_conv snd_conv step(1) using ids by blast
  qed
  ultimately show ?thesis using inv step(1-4) new by (simp add: graph_inv_def)
qed

lemma peer_inv_AddNode:
  "peer_inv (p, ts) \<Longrightarrow> n \<noteq> -1 \<Longrightarrow> peer_inv (p\<lparr>pn_Graph := AddNode now n a (pn_Graph p)\<rparr>, ts)"
  by (simp add: peer_inv_iff graph_inv_AddNode)

lemma peer_inv_goroutine:
  assumes "peer_inv (p, ts)" and "i < length ts" "ts ! i = (info, pc)" and "timely inp"
    and st: "task_step inp info pc p = (pc', p')"
  shows "peer_inv (p', ts[i := (info, pc')])"
  using assms graph_inv_goroutine [OF _ assms(2-5)] task_step_graph(1,2) [OF st] by (simp add: peer_inv_iff)

lemma NewPeerNode_Return:
  assumes "NewPeerNode fl n port addr fs = Return p"
  shows "pn_ID p = n" "pn_Graph p = NewNetworkGraph" "pn_Router p = NewDijkstraRouter"
  using assms by (auto simp: NewPeerNode_def Let_def split: outcome.splits)

lemma cache_direct_New: "cache_direct self (dr_cache NewDijkstraRouter)"
  by (simp add: cache_direct_def NewDijkstraRouter_def)

lemma cache_direct_Invalidate: "cache_direct self (fst (cache_Invalidate rc))"
  by (simp add: cache_direct_def)

lemma spawned_ids: "(info, pc) \<in> set (spawn_tasks self infos) \<Longrightarrow> pi_PeerId info \<noteq> self \<and> info \<in> set infos \<and> pc = Dialing"
  by (induction self infos rule: spawn_tasks.induct) (auto split: if_splits)

lemma peer_run_inv: "peer_run s \<Longrightarrow> peer_inv s"
proof (induction rule: peer_run.induct)
  case (created fl n port addr fs p)
  then show ?case
    using NewPeerNode_Return [OF created(2)] cache_direct_New
    by (simp add: peer_inv_def star_edges_def tasks_ok_def overlay_simps)
next
  case (registered p ts now dial rpc p' r)
  then have "p' = p \<or> p' = p\<lparr>pn_Graph := AddNode now (pn_ID p) (pn_Address p) (pn_Graph p)\<rparr>"
    by (auto simp: RegisterWithBootstrap_def split: sum.splits if_splits)
  moreover have "pn_ID p \<noteq> -1" using registered by (simp add: peer_inv_def)
  ultimately show ?case using registered peer_inv_AddNode by blast
next
  case (spawned p ts infos)
  then show ?case by (auto simp: peer_inv_def tasks_ok_def task_ok_def dest!: spawned_ids)
next
  case (goroutine p ts i info pc inp pc' p')
  then show ?case using peer_inv_goroutine by blast
next
  case (notified p ts req now p' resp)
  then show ?case using peer_inv_AddNode [of p ts "npn_PeerId req"] by (auto simp: NotifyNewPeer_def)
next
  case (routed p ts clk ord cn ce req p' r)
  then obtain dr r0 where r: "CalculateRoute clk ord (routing_view cn ce (pn_Graph p)) (rrq_FromPeerId req)
      (rrq_ToPeerId req) (pn_Router p) = Some (dr, r0)" "p' = p\<lparr>pn_Router := dr\<rparr>"
    by (auto simp: srv_CalculateRoute_def)
  then have "cache_direct (pn_ID p) (dr_cache dr)"
    using routed.IH CalculateRoute_star(1) [OF _ _ _ _ r(1)] by (auto simp: peer_inv_def)
  then show ?case using routed.IH r(2) by (auto simp: peer_inv_def intro!: tasks_ok_mono [of p])
next
  case (invalidated p ts req p' resp)
  then show ?case
    using cache_direct_Invalidate
    by (auto simp: peer_inv_def InvalidateRouteCache_def InvalidateCache_def split: prod.splits intro!: tasks_ok_mono [of p])
      (metis fst_conv)
next
  case (uploaded p ts fileID req fs p' fs' r)
  then show ?case by (auto simp: peer_inv_def srv_UploadFile_def split: prod.splits intro!: tasks_ok_mono [of p])
next
  case (closed p ts)
  then show ?case by (auto simp: peer_inv_def Close_def intro!: tasks_ok_mono [of p])
qed

section \<open>Results\<close>

text \<open>A run from creation to a finished connection, the goroutines of \<open>sample_infos\<close> taking turns.\<close>

lemma peer_run_schedule:
  "peer_run s \<Longrightarrow> \<forall>(i, inp) \<in> set sch. timely inp \<Longrightarrow> peer_run (run_schedule sch s)"
proof (induction sch arbitrary: s)
  case (Cons x sch)
  obtain i inp p ts where e: "x = (i, inp)" "s = (p, ts)" by (cases x; cases s)
  have "peer_run (schedule_one x s)"
  proof (cases "i < length ts")
    case True
    obtain info pc where t: "ts ! i = (info, pc)" by (cases "ts ! i")
    obtain pc' p' where st: "task_step inp info pc p = (pc', p')" by (metis surj_pair)
    have "timely inp" using Cons.prems(2) e by simp
    from peer_run.goroutine [OF _ True t this st] show ?thesis
      using Cons.prems(1) True t st by (simp add: schedule_one_def e)
  next
    case False
    then show ?thesis using Cons.prems(1) by (simp add: schedule_one_def e)
  qed
  then show ?case using Cons by (simp add: run_schedule_def)
qed (simp add: run_schedule_def)

lemma sample_run:
  obtains p ts where "peer_run (p :: string peer_node, ts)" "pn_ID p = 1" "node_map (pn_Graph p) 1 \<noteq> None"
    "edge_map (pn_Graph p) (1, 2) = Some 12"
proof -
  obtain sm where "NewStorageManager (\<lambda>x. x) 1 (''./data/peer-'' @ fmt_d (sint (1 :: i32))) (no_faults []) = Return sm"
    using NewStorageManager_works [OF close_float_id no_faults_faultless] by blast
  then obtain p0 :: "string peer_node" where p0: "NewPeerNode (\<lambda>x. x) 1 9001 ''localhost:5000'' (no_faults []) = Return p0"
    by (simp add: NewPeerNode_def Let_def)
  note new = NewPeerNode_Return [OF p0]
  let ?p1 = "p0\<lparr>pn_Graph := AddNode 0 (pn_ID p0) (pn_Address p0) (pn_Graph p0)\<rparr>"
  have "peer_run (p0, [])" by (rule peer_run.created [OF close_float_id p0]) simp
  moreover have "RegisterWithBootstrap 0 (\<lambda>a. Inr a) (\<lambda>_ _. Inr \<lparr>rgs_Success = True, rgs_Peers = sample_infos\<rparr>) p0
      = (?p1, Return sample_infos)"
    by (simp add: RegisterWithBootstrap_def)
  ultimately have "peer_run (?p1, [])" by (rule peer_run.registered)
  then have "peer_run (?p1, spawn_tasks (pn_ID ?p1) sample_infos)"
    by (rule peer_run.spawned) (simp_all add: all_finished_def sample_infos_def)
  then have run: "peer_run (run_schedule (map (\<lambda>i. (i, sample_input)) [0, 1, 0, 0, 0, 0])
      (?p1, spawn_tasks (pn_ID ?p1) sample_infos))"
    by (rule peer_run_schedule) (auto simp: sample_input_timely)
  have ml: "measureLatency (\<lambda>_. Inr 12000000) = Inr 12"
    by (simp add: measureLatency_def upt_rec Milliseconds_def go_quot_def wrap64_def)
  obtain p ts where p: "run_schedule (map (\<lambda>i. (i, sample_input)) [0, 1, 0, 0, 0, 0])
      (?p1, spawn_tasks (pn_ID ?p1) sample_infos) = (p, ts)" by (metis surj_pair)
  then have "pn_ID p = 1 \<and> node_map (pn_Graph p) 1 \<noteq> None \<and> edge_map (pn_Graph p) (1, 2) = Some 12"
    using new by (auto simp: run_schedule_def schedule_one_def sample_infos_def sample_input_def ml overlay_simps)
  then show thesis using that run p by simp
qed

text \<open>The route to a linked peer exists in the graph, hence is found or served from the cache.\<close>

lemma linked_search:
  assumes "graph_inv (p, ts)" and "node_map (pn_Graph p) (pn_ID p) \<noteq> None"
    and "edge_map (pn_Graph p) (pn_ID p, t) = Some l"
  shows "t \<noteq> pn_ID p" and "\<exists>path lat. dijkstra ord (routing_view cn ce (pn_Graph p)) (pn_ID p) t = Some (Return (path, lat))"
proof -
  let ?g = "routing_view cn ce (pn_Graph p)" and ?self = "pn_ID p"
  have wf: "ng_wf (pn_Graph p)" and star: "star_edges ?self (pn_Graph p)" and sent: "node_map (pn_Graph p) (-1) = None"
    using assms(1) by (simp_all add: graph_inv_def)
  have t: "t \<noteq> ?self" "node_map (pn_Graph p) t \<noteq> None" using star assms(3) unfolding star_edges_def by blast+
  then show "t \<noteq> pn_ID p" by blast
  have ids: "?self \<in> node_ids ?g" "t \<in> node_ids ?g" using assms(2) t(2) wf by (auto simp: domIff)
  have "\<lparr>ge_From = ?self, ge_To = t, ge_LatencyMs = l\<rparr> \<in> set (GetEdgeList ?g)"
    using assms(3) edge_list_iff [OF wf] by (simp add: routing_view_def)
  then have "graph_walk ?g ?self [\<lparr>ge_From = ?self, ge_To = t, ge_LatencyMs = l\<rparr>] t" using ids(2) by simp
  then show "\<exists>path lat. dijkstra ord ?g ?self t = Some (Return (path, lat))"
    using dijkstra_Return_iff [OF star_graph_ok [OF wf sent star]] ids by blast
qed

lemma linked_route:
  assumes "peer_inv (p, ts)" and "node_map (pn_Graph p) (pn_ID p) \<noteq> None"
    and "edge_map (pn_Graph p) (pn_ID p, t) = Some l"
  shows "\<exists>p' resp. srv_CalculateRoute clk ord cn ce \<lparr>rrq_FromPeerId = pn_ID p, rrq_ToPeerId = t\<rparr> p = Some (p', Return resp)
    \<and> rrs_Path resp = [pn_ID p, t]"
proof -
  let ?g = "routing_view cn ce (pn_Graph p)" and ?self = "pn_ID p"
  have "graph_inv (p, ts)" using assms(1) by (simp add: peer_inv_iff)
  note search = linked_search [OF this assms(2,3)]
  obtain path lat where found: "dijkstra ord ?g ?self t = Some (Return (path, lat))" using search(2) by blast
  obtain dr r where r: "CalculateRoute clk ord ?g ?self t (pn_Router p) = Some (dr, r)"
    using CalculateRoute_total by blast
  have "\<exists>r'. r = Return r'"
    using r by (cases rule: CalculateRoute_cases) (use found in auto)
  then obtain r' where r': "r = Return r'" by blast
  have "direct_route ?self ?self t r'"
    using assms(1) search(1) CalculateRoute_star(2) [OF _ _ _ _ r r'] by (auto simp: peer_inv_def)
  then show ?thesis using r r' by (simp add: srv_CalculateRoute_def direct_route_def)
qed

text \<open>
  Every route a peer ever answers with is direct. In every run, under any interleaving of
  its goroutines and requests, a successful route response, fresh or cached, is the trivial
  one of a peer to itself or the two-element path from this peer to the target, with one
  hop and a latency of 1 ms to a minute; in particular no route from another peer is found.
\<close>

lemma all_routes_are_direct:
  assumes "peer_run (p, ts)"
    and "srv_CalculateRoute clk ord cn ce \<lparr>rrq_FromPeerId = f, rrq_ToPeerId = t\<rparr> p = Some (p', Return resp)"
  shows "f = t \<and> rrs_Path resp = [f] \<and> rrs_TotalLatencyMs resp = 0 \<and> rrs_Hops resp = 0
    \<or> f = pn_ID p \<and> t \<noteq> f \<and> rrs_Path resp = [f, t] \<and> rrs_Hops resp = 1
      \<and> 1 \<le> rrs_TotalLatencyMs resp \<and> rrs_TotalLatencyMs resp \<le> 60000"
proof -
  have inv: "peer_inv (p, ts)" by (rule peer_run_inv [OF assms(1)])
  obtain dr r where r: "CalculateRoute clk ord (routing_view cn ce (pn_Graph p)) f t (pn_Router p) = Some (dr, Return r)"
    "resp = \<lparr>rrs_Path = Path r, rrs_TotalLatencyMs = TotalLatency r, rrs_Hops = Hops r\<rparr>"
    using assms(2) by (auto simp: srv_CalculateRoute_def outcome_elims)
  have "(f = t \<and> Path r = [f] \<and> TotalLatency r = 0 \<and> Hops r = 0) \<or> direct_route (pn_ID p) f t r"
    using inv CalculateRoute_star(2) [OF _ _ _ _ r(1) refl] by (simp add: peer_inv_def)
  then show ?thesis by (auto simp: r(2) direct_route_def)
qed

text \<open>
  A peer reaches every peer it is linked to. In every run, if this peer is registered and
  has an edge to another peer, the route request to that peer succeeds, for every order of
  the maps and every content of the cache.
\<close>

lemma linked_peers_routable:
  assumes "peer_run (p, ts)" and "node_map (pn_Graph p) (pn_ID p) \<noteq> None"
    and "edge_map (pn_Graph p) (pn_ID p, t) \<noteq> None"
  shows "\<exists>p' resp. srv_CalculateRoute clk ord cn ce \<lparr>rrq_FromPeerId = pn_ID p, rrq_ToPeerId = t\<rparr> p = Some (p', Return resp)
    \<and> rrs_Path resp = [pn_ID p, t]"
  using linked_route [OF peer_run_inv [OF assms(1)] assms(2)] assms(3) by blast

end
