(* ===== verification/Peer_Types.thy ===== *)
theory Peer_Types
  imports Peer_System
begin

text \<open>
  Well-formed peers. Nothing in Go's types says that the bit array of a filter has the length
  its number of bits asks for, that the key of a map entry agrees with its value, or that the
  storage directory has a name; \<open>peer_wf\<close> says it. Every operation preserves it, a new peer
  has it, and on well-formed peers no handler runs into a bounds check, except the upload of
  an empty file.
\<close>

section \<open>Well-formed states\<close>

definition store_wf :: "string \<Rightarrow> chunk_store \<Rightarrow> bool" where
  "store_wf base cs \<longleftrightarrow> cs_baseDir cs = base \<and> gm_wf (cs_files cs) \<and> gm_wf (cs_chunks cs)"

definition filter_typed :: "bloom_filter \<Rightarrow> bool" where
  "filter_typed bf \<longleftrightarrow> bloom_wf bf \<and> numBits bf \<in> {94000..104200} \<and> numHashes bf = 7"

definition peer_wf :: "'c peer_node \<Rightarrow> bool" where
  "peer_wf p \<longleftrightarrow> ng_wf (pn_Graph p) \<and> cache_wf (dr_cache (pn_Router p)) \<and> gm_wf (pn_connections p)
     \<and> store_wf (''./data/peer-'' @ fmt_d (sint (pn_ID p))) (sm_Store (pn_Storage p))
     \<and> filter_typed (sm_Bloom (pn_Storage p))"

section \<open>Uploads preserve them\<close>

lemma split_loop_store:
  assumes "split_loop f d is cs fs chunks hashes = ((cs', fs'), r)" and "store_wf base cs"
  shows "store_wf base cs'"
  using assms
proof (induction "is" arbitrary: cs fs chunks hashes)
  case (Cons i "is")
  let ?c = "split_chunk f d i"
  let ?cs = "cs\<lparr>cs_chunks := gm_set (chunkStoreKey f (ch_Index ?c)) (ch_Data ?c) (cs_chunks cs)\<rparr>"
  have wf: "store_wf base ?cs" using Cons.prems(2) by (simp add: store_wf_def)
  obtain fs1 err where p: "persistChunk ?cs f (ch_Index ?c) (ch_Data ?c) fs = (fs1, err)" by (metis surj_pair)
  show ?case
  proof (cases err)
    case None
    then have "split_loop f d is ?cs fs1 (chunks @ [?c]) (hashes @ [ch_Hash ?c]) = ((cs', fs'), r)"
      using Cons.prems(1) p by (simp add: Let_def)
    then show ?thesis using Cons.IH wf by blast
  next
    case (Some e)
    then show ?thesis using Cons.prems(1) p wf by (auto simp: Let_def)
  qed
qed simp

lemma SplitFile_store:
  assumes "SplitFile f name d cs fs = ((cs', fs'), r)" and "store_wf base cs"
  shows "store_wf base cs'"
proof (cases "sint (num_chunks (int (length d))) < 0")
  case True
  then show ?thesis using assms by (simp add: SplitFile_def)
next
  case False
  obtain cs1 fs1 x where l: "split_loop f d [0..<nat (sint (num_chunks (int (length d))))] cs fs [] [] = ((cs1, fs1), x)"
    by (metis surj_pair)
  have "store_wf base cs1" by (rule split_loop_store [OF l assms(2)])
  then show ?thesis
    using assms(1) False l by (cases x) (auto simp: SplitFile_def store_wf_def Let_def)
qed

text \<open>The parts of \<open>UploadFile\<close>: splitting, entering the keys, the log line.\<close>

lemma UploadFile_cases:
  assumes "UploadFile f name d sm fs = ((sm', fs'), r)" and "bloom_wf (sm_Bloom sm)"
  obtains (split_failed) cs' e where "SplitFile f name d (sm_Store sm) fs = ((cs', fs'), Fail e)"
      "sm' = sm\<lparr>sm_Store := cs'\<rparr>" "r = Fail e"
  | (split_panicked) cs' q where "SplitFile f name d (sm_Store sm) fs = ((cs', fs'), Panic q)"
      "sm' = sm\<lparr>sm_Store := cs'\<rparr>" "r = Panic q"
  | (stored) cs' metadata chunks bf where "SplitFile f name d (sm_Store sm) fs = ((cs', fs'), Return (metadata, chunks))"
      "for_each (\<lambda>k f. Add f k) (map (\<lambda>c. ChunkKey (ch_FileID c) (ch_Index c)) chunks) (sm_Bloom sm) = Return bf"
      "sm' = sm\<lparr>sm_Store := cs', sm_Bloom := bf\<rparr>"
      "r = bind_outcome (slice_prefix (fm_RootHash metadata) 16) (\<lambda>_. Return metadata)"
proof -
  obtain cs' fs'' s where s: "SplitFile f name d (sm_Store sm) fs = ((cs', fs''), s)" by (metis surj_pair)
  show thesis
  proof (cases s)
    case (Return mc)
    obtain metadata chunks where mc: "mc = (metadata, chunks)" by (cases mc)
    have keys: "for_each (\<lambda>c bf. Add bf (ChunkKey (ch_FileID c) (ch_Index c))) chunks (sm_Bloom sm)
        = for_each (\<lambda>k f. Add f k) (map (\<lambda>c. ChunkKey (ch_FileID c) (ch_Index c)) chunks) (sm_Bloom sm)"
      by (rule for_each_map [where g = "\<lambda>c. ChunkKey (ch_FileID c) (ch_Index c)" and body = "\<lambda>k f. Add f k"])
    obtain bf where "for_each (\<lambda>k f. Add f k) (map (\<lambda>c. ChunkKey (ch_FileID c) (ch_Index c)) chunks) (sm_Bloom sm) = Return bf"
      using Add_each_wf [OF assms(2)] by blast
    then show thesis using assms(1) s Return mc keys by (intro stored) (auto simp: UploadFile_def)
  next
    case (Fail e)
    then show thesis using assms(1) s by (intro split_failed) (auto simp: UploadFile_def)
  next
    case (Panic q)
    then show thesis using assms(1) s by (intro split_panicked) (auto simp: UploadFile_def)
  qed
qed

lemma UploadFile_typed:
  assumes "UploadFile f name d sm fs = ((sm', fs'), r)" and "store_wf base (sm_Store sm)" and "filter_typed (sm_Bloom sm)"
  shows "store_wf base (sm_Store sm')" and "filter_typed (sm_Bloom sm')"
proof -
  have wf: "bloom_wf (sm_Bloom sm)" using assms(3) by (simp add: filter_typed_def)
  have "store_wf base (sm_Store sm') \<and> filter_typed (sm_Bloom sm')"
    using assms(1) wf
  proof (cases rule: UploadFile_cases)
    case (split_failed cs' e)
    then show ?thesis using SplitFile_store [OF split_failed(1) assms(2)] assms(3) by simp
  next
    case (split_panicked cs' q)
    then show ?thesis using SplitFile_store [OF split_panicked(1) assms(2)] assms(3) by simp
  next
    case (stored cs' metadata chunks bf)
    obtain bf' where "for_each (\<lambda>k f. Add f k) (map (\<lambda>c. ChunkKey (ch_FileID c) (ch_Index c)) chunks) (sm_Bloom sm) = Return bf'"
      "bloom_wf bf'" "numBits bf' = numBits (sm_Bloom sm)" "numHashes bf' = numHashes (sm_Bloom sm)"
      using Add_each_wf [OF wf] by blast
    then have "filter_typed bf" using stored(2) assms(3) by (simp add: filter_typed_def)
    then show ?thesis using SplitFile_store [OF stored(1) assms(2)] stored(3) by simp
  qed
  then show "store_wf base (sm_Store sm')" "filter_typed (sm_Bloom sm')" by blast+
qed

text \<open>The root hash of a file that was split is that of its chunks, so the log line has enough characters.\<close>

lemma split_loop_hashes:
  assumes "split_loop f d is cs fs chunks hashes = ((cs', fs'), Inr (chunks', hashes'))"
  shows "hashes' = hashes @ map (\<lambda>i. ch_Hash (split_chunk f d i)) is"
  using assms
proof (induction "is" arbitrary: cs fs chunks hashes)
  case (Cons i "is")
  then show ?case by (fastforce simp: Let_def split: prod.splits option.splits)
qed simp

lemma SplitFile_root:
  assumes "SplitFile f name d cs fs = ((cs', fs'), Return (metadata, chunks))" and "d \<noteq> []"
    and "int (length d) \<le> max_file"
  shows "length (fm_RootHash metadata) = 64"
proof -
  let ?is = "[0..<chunk_count d]"
  obtain hashes where h: "fm_RootHash metadata = RootHash hashes" "hashes = map (\<lambda>i. ch_Hash (split_chunk f d i)) ?is"
    using assms(1) num_chunks_value [OF assms(3)] split_loop_hashes
    by (fastforce simp: SplitFile_def Let_def split: prod.splits sum.splits)
  have "hashes \<noteq> []" using chunk_count_pos [OF assms(2)] h(2) by simp
  moreover have "\<forall>x \<in> set hashes. length x = 64" by (auto simp: h(2) split_chunk_def Let_def)
  ultimately show ?thesis unfolding h(1) by (rule RootHash_chunks)
qed

lemma UploadFile_panics_iff:
  assumes "UploadFile f name d sm fs = ((sm', fs'), r)" and "bloom_wf (sm_Bloom sm)" and "int (length d) \<le> max_file"
  shows "(\<exists>q. r = Panic q) \<longleftrightarrow> d = []"
proof
  assume "d = []"
  then show "\<exists>q. r = Panic q"
    using assms(1) by (auto simp: UploadFile_def SplitFile_def num_chunks_def DefaultChunkSize_def go_quot_def Let_def
      RootHash_empty slice_prefix_def)
next
  assume panic: "\<exists>q. r = Panic q"
  from assms(1,2) show "d = []"
  proof (cases rule: UploadFile_cases)
    case (split_panicked cs' q)
    then have "sint (num_chunks (int (length d))) < 0"
      by (auto simp: SplitFile_def Let_def split: prod.splits sum.splits if_splits)
    then show ?thesis using num_chunks_value(1) [OF assms(3)] by simp
  next
    case (stored cs' metadata chunks bf)
    show ?thesis
    proof (rule ccontr)
      assume "d \<noteq> []"
      from SplitFile_root [OF stored(1) this assms(3)] show False using stored(4) panic by (simp add: slice_prefix_def)
    qed
  qed (use panic in simp)
qed

section \<open>Preservation\<close>

lemma peer_wf_NewPeerNode:
  assumes "close_float fl" and "NewPeerNode fl n port addr fs = Return p"
  shows "peer_wf p"
proof -
  let ?base = "''./data/peer-'' @ fmt_d (sint n)"
  obtain sm where sm: "NewStorageManager fl n ?base fs = Return sm" "pn_Storage p = sm" "pn_connections p = []"
    using assms(2) by (auto simp: NewPeerNode_def Let_def split: outcome.splits)
  obtain bf where bf: "NewBloomFilter fl 10000 (fl (1 / 100)) = Return bf" "filter_typed bf"
    using default_filter [OF assms(1)] unfolding filter_typed_def by blast
  have "sm_Bloom sm = bf" using sm(1) bf(1) by (auto simp: NewStorageManager_def outcome_elims)
  then show ?thesis
    using NewPeerNode_Return [OF assms(2)] NewStorageManager_Return(2) [OF assms(1) sm(1)] sm bf(2)
    by (simp add: peer_wf_def store_wf_def NewDijkstraRouter_def)
qed

lemma peer_wf_CalculateRoute:
  assumes "CalculateRoute clk ord g f t (pn_Router p) = Some (dr, r)" and "peer_wf p"
  shows "peer_wf (p\<lparr>pn_Router := dr\<rparr>)"
  using assms(1) by (cases rule: CalculateRoute_cases) (use assms(2) in \<open>auto simp: peer_wf_def\<close>)

lemma peer_wf_upload:
  assumes "srv_UploadFile fileID req p fs = ((p', fs'), r)" and "peer_wf p"
  shows "peer_wf p'"
proof -
  obtain sm r' where u: "UploadFile fileID (ufq_FileName req) (ufq_FileData req) (pn_Storage p) fs = ((sm, fs'), r')"
    "p' = p\<lparr>pn_Storage := sm\<rparr>"
    using assms(1) by (auto simp: srv_UploadFile_def split: prod.splits)
  then show ?thesis using UploadFile_typed [OF u(1)] assms(2) by (auto simp: peer_wf_def)
qed

lemma peer_wf_task: "task_step inp info pc p = (pc', p') \<Longrightarrow> peer_wf p \<Longrightarrow> peer_wf p'"
  by (cases pc) (auto simp: peer_wf_def split: sum.splits)

lemma peer_run_wf:
  assumes "peer_run s"
  shows "peer_wf (fst s)"
  using assms
proof (induction rule: peer_run.induct)
  case created
  then show ?case using peer_wf_NewPeerNode by simp
next
  case (registered p ts now dial rpc p' r)
  then show ?case by (auto simp: RegisterWithBootstrap_def peer_wf_def split: sum.splits if_splits)
next
  case goroutine
  then show ?case using peer_wf_task by simp
next
  case (routed p ts clk ord cn ce req p' r)
  then show ?case using peer_wf_CalculateRoute by (fastforce simp: srv_CalculateRoute_def)
next
  case (invalidated p ts req p' resp)
  then show ?case by (auto simp: InvalidateRouteCache_def InvalidateCache_def peer_wf_def split: prod.splits)
    (metis cache_wf_Invalidate fst_conv)
next
  case uploaded
  then show ?case using peer_wf_upload by fastforce
qed (auto simp: NotifyNewPeer_def Close_def peer_wf_def)

lemma route_response_total:
  "\<exists>p' r. srv_CalculateRoute clk ord cn ce req p = Some (p', r) \<and> (\<forall>q. r \<noteq> Panic q)"
proof -
  obtain dr r where "CalculateRoute clk ord (routing_view cn ce (pn_Graph p)) (rrq_FromPeerId req) (rrq_ToPeerId req)
      (pn_Router p) = Some (dr, r)" "\<forall>q. r \<noteq> Panic q"
    using CalculateRoute_total by blast
  then show ?thesis by (cases r) (auto simp: srv_CalculateRoute_def)
qed

section \<open>Results\<close>

text \<open>
  C15: Well-formed peers never go wrong. In every run the peer is well-formed: its maps have one
  entry per key and the keys the code computes, the bit array fits its sizes, the filter has
  its seven hash functions, the store its own directory. Therefore every handler returns a
  response or an error and never panics, with one exception: an upload (of at most 512 TiB)
  panics exactly when the file is empty.
\<close>

theorem reachable_peers_never_go_wrong:
  assumes "peer_run (p, ts)"
  shows "peer_wf p
    \<and> (\<exists>resp. HasChunk hreq p = Return resp) \<and> (\<exists>resp. srv_DownloadChunk dreq fs p = Return resp)
    \<and> (\<exists>p' r. srv_CalculateRoute clk ord cn ce rreq p = Some (p', r) \<and> (\<forall>q. r \<noteq> Panic q))
    \<and> (int (length (ufq_FileData ureq)) \<le> max_file \<longrightarrow>
         ((\<exists>q. snd (srv_UploadFile fileID ureq p fs) = Panic q) \<longleftrightarrow> ufq_FileData ureq = []))"
proof -
  have wf: "peer_wf p" using peer_run_wf [OF assms] by simp
  then have bloom: "bloom_wf (sm_Bloom (pn_Storage p))" by (simp add: peer_wf_def filter_typed_def)
  have has: "\<exists>resp. HasChunk hreq p = Return resp"
    using bloom.test_law [OF bloom] by (auto simp: HasChunk_def MightHaveChunk_def Let_def) (metis bind_outcome.simps(1))
  have get: "\<exists>resp. srv_DownloadChunk dreq fs p = Return resp"
    by (auto simp: srv_DownloadChunk_def DownloadChunk_def GetChunk_def split: option.splits sum.splits)
  note route = route_response_total [of clk ord cn ce rreq p]
  have "(\<exists>q. snd (srv_UploadFile fileID ureq p fs) = Panic q) \<longleftrightarrow> ufq_FileData ureq = []"
    if "int (length (ufq_FileData ureq)) \<le> max_file"
  proof -
    obtain sm fs' r where u: "UploadFile fileID (ufq_FileName ureq) (ufq_FileData ureq) (pn_Storage p) fs = ((sm, fs'), r)"
      by (metis surj_pair)
    have "(\<exists>q. snd (srv_UploadFile fileID ureq p fs) = Panic q) \<longleftrightarrow> (\<exists>q. r = Panic q)"
      using u by (cases r) (auto simp: srv_UploadFile_def)
    then show ?thesis using UploadFile_panics_iff [OF u bloom that] by simp
  qed
  then show ?thesis using wf has get route by blast
qed

theorem reachable_peers_never_go_wrong_witness:
  "\<exists>(p :: string peer_node) ts. peer_run (p, ts) \<and> peer_wf p
    \<and> (\<exists>q. snd (srv_UploadFile ''id'' \<lparr>ufq_FileName = ''n'', ufq_FileData = []\<rparr> p (no_faults [])) = Panic q)
    \<and> (\<nexists>q. snd (srv_UploadFile ''id'' \<lparr>ufq_FileName = ''n'', ufq_FileData = [7]\<rparr> p (no_faults [])) = Panic q)"
proof -
  obtain p ts where p: "peer_run (p :: string peer_node, ts)" by (rule sample_run)
  note sound = reachable_peers_never_go_wrong [OF p, where fs = "no_faults []" and fileID = "''id''"]
  have "\<exists>q. snd (srv_UploadFile ''id'' \<lparr>ufq_FileName = ''n'', ufq_FileData = []\<rparr> p (no_faults [])) = Panic q"
    "\<nexists>q. snd (srv_UploadFile ''id'' \<lparr>ufq_FileName = ''n'', ufq_FileData = [7]\<rparr> p (no_faults [])) = Panic q" "peer_wf p"
    using sound [where ureq = "\<lparr>ufq_FileName = ''n'', ufq_FileData = []\<rparr>"]
      sound [where ureq = "\<lparr>ufq_FileName = ''n'', ufq_FileData = [7]\<rparr>"]
    by (simp_all only: upload_file_request.select_convs list.size of_nat_0 of_nat_1 max_file_def) simp_all
  then show ?thesis using p by blast
qed

text \<open>
  C26: The filter of a running peer answers elsewhere as it does here. In every run, deserializing
  the response of \<open>GetBloomFilter\<close> on another machine and testing the key of a chunk there
  returns, without a panic, what \<open>MightHaveChunk\<close> returns on this peer, however many items
  were added.
\<close>

theorem served_filter_agrees:
  assumes "peer_run (p, ts)"
  shows "\<exists>b. MightHaveChunk (pn_Storage p) f i = Return b
    \<and> (let r = GetBloomFilter req p in
      MightContain (DeserializeBloomFilter (gbs_BitArray r) (gbs_NumBits r) (gbs_NumHashFunctions r) (gbs_ItemsAdded r))
        (ChunkKey f i)) = Return b"
proof -
  have "peer_wf p" using peer_run_wf [OF assms] by simp
  then have wf: "bloom_wf (sm_Bloom (pn_Storage p))" "numHashes (sm_Bloom (pn_Storage p)) \<in> {-2147483648..2147483647}"
    by (simp_all add: peer_wf_def filter_typed_def)
  obtain b where "MightHaveChunk (pn_Storage p) f i = Return b"
    using bloom.test_law [OF wf(1)] unfolding MightHaveChunk_def by blast
  then show ?thesis using remote_filter_agrees [OF wf, of req f i] by simp
qed

theorem served_filter_agrees_witness:
  "\<exists>(p :: string peer_node) ts b. peer_run (p, ts) \<and> MightHaveChunk (pn_Storage p) ''f'' 3 = Return b
    \<and> (let r = GetBloomFilter GetBloomFilterRequest p in
      MightContain (DeserializeBloomFilter (gbs_BitArray r) (gbs_NumBits r) (gbs_NumHashFunctions r) (gbs_ItemsAdded r))
        (ChunkKey ''f'' 3)) = Return b"
proof -
  obtain p ts where p: "peer_run (p :: string peer_node, ts)" by (rule sample_run)
  from served_filter_agrees [OF p, of "''f''" 3 GetBloomFilterRequest] show ?thesis using p by blast
qed

end
