(* ===== verification/Peer_Main.thy ===== *)
theory Peer_Main
  imports Peer_Types
begin

text \<open>
  The peer program (\<open>cmd/peer/main.go\<close>): creation, registration, connection, the printed graph and
  metrics, the demonstration route to the highest known peer, and shutdown. The main goroutine
  goes through these phases one by one; meanwhile the goroutines of \<open>ConnectToPeers\<close> and the
  handlers of the gRPC server act on the same peer. The program's output is part of the state.
\<close>

section \<open>Definitions\<close>

text \<open>\<open>%v\<close> of a slice of integers.\<close>

fun join_words :: "string list \<Rightarrow> string" where
  "join_words [] = []"
| "join_words [w] = w"
| "join_words (w # v # ws) = w @ '' '' @ join_words (v # ws)"

definition fmt_v :: "i32 list \<Rightarrow> string" where
  "fmt_v xs = ''['' @ join_words (map (\<lambda>x. fmt_d (sint x)) xs) @ '']''"

definition route_tag :: "'c peer_node \<Rightarrow> i32 \<Rightarrow> string" where
  "route_tag p t = peer_tag p @ ''Route to peer-'' @ fmt_d (sint t) @ '': ''"

text \<open>The loop that picks the target of the demonstration, from the zero value of \<open>targetID\<close>.\<close>

fun target_loop :: "i32 \<Rightarrow> network_node list \<Rightarrow> i32 \<Rightarrow> i32" where
  "target_loop peerID [] targetID = targetID"
| "target_loop peerID (n # ns) targetID =
     target_loop peerID ns (if nn_ID n \<noteq> peerID \<and> sint (nn_ID n) > sint targetID then nn_ID n else targetID)"

text \<open>The message of the serving goroutine when the server fails, which ends the process.\<close>

definition serve_failure :: "'c peer_node \<Rightarrow> error \<Rightarrow> string" where
  "serve_failure p e = peer_tag p @ ''Failed to serve gRPC: '' @ e"

text \<open>The phases of the main goroutine, and what the environment answers during one of them.\<close>

datatype main_pc =
    Created
  | Joined "peer_info list"
  | Connecting
  | Printing
  | Metrics
  | Demo
  | Routing i32
  | Running
  | Waiting
  | Stopping
  | Stopped
  | Fatal error
  | Panicked go_panic

record 'c main_input =
  mi_now :: int
  mi_dial :: "string \<Rightarrow> error + 'c"
  mi_register :: "'c \<Rightarrow> register_request \<Rightarrow> error + register_response"
  mi_clock :: "nat \<Rightarrow> int"
  mi_order :: "nat \<Rightarrow> choices"
  mi_nodes :: choices
  mi_edges :: choices
  mi_sort_nodes :: choices
  mi_sort_edges :: choices
  mi_round :: "real \<Rightarrow> real"
  mi_connections :: choices
  mi_close :: "'c \<Rightarrow> error option"

text \<open>
  \<open>log.Fatalf\<close> ends the process: the state \<open>Fatal\<close>. \<open>None\<close> is a step that waits (or never returns). The
  step from \<open>Waiting\<close> is the arrival of a signal, the step from \<open>Stopping\<close> comes when
  \<open>GracefulStop\<close> has returned: until then requests in progress are completed.
\<close>

fun main_step :: "'c main_input \<Rightarrow> main_pc \<Rightarrow> 'c connect_state \<Rightarrow> (main_pc \<times> 'c connect_state \<times> string) option" where
  "main_step inp Created (p, ts) =
     (case RegisterWithBootstrap (mi_now inp) (mi_dial inp) (mi_register inp) p of
        (p', Return peers) \<Rightarrow>
          Some (Joined peers, (p', ts), peer_tag p @ ''Registered with bootstrap. Got ''
                  @ fmt_d (int (length peers)) @ '' peers'' @ newline)
      | (p', Fail e) \<Rightarrow> Some (Fatal (peer_tag p @ e), (p', ts), [])
      | (p', Panic q) \<Rightarrow> Some (Panicked q, (p', ts), []))"
| "main_step inp (Joined peers) (p, ts) =
     (if length peers > 0 then Some (Connecting, (p, spawn_tasks (pn_ID p) peers), [])
      else Some (Printing, (p, ts), peer_tag p @ ''No other peers found yet (first peer in the network)'' @ newline))"
| "main_step inp Connecting (p, ts) = (if all_finished ts then Some (Printing, (p, ts), []) else None)"
| "main_step inp Printing (p, ts) =
     Some (Metrics, (p, ts), PrintGraph (mi_nodes inp) (mi_edges inp) (mi_sort_nodes inp) (mi_sort_edges inp) p)"
| "main_step inp Metrics (p, ts) =
     Some (Demo, (p, ts),
       GetNetworkMetrics (mi_round inp) (routing_view (mi_nodes inp) (mi_edges inp) (pn_Graph p)) (pn_Analyzer p))"
| "main_step inp Demo (p, ts) =
     (let nodes = GetNodes (mi_nodes inp) (pn_Graph p) in
      if length nodes > 1
      then let targetID = target_loop (pn_ID p) nodes 0
           in if sint targetID > 0 then Some (Routing targetID, (p, ts), []) else Some (Running, (p, ts), [])
      else Some (Running, (p, ts), []))"
| "main_step inp (Routing targetID) (p, ts) =
     (case peer_CalculateRoute (mi_clock inp) (mi_order inp) (mi_nodes inp) (mi_edges inp) targetID p of
        None \<Rightarrow> None
      | Some (p', Fail err) \<Rightarrow> Some (Running, (p', ts), route_tag p targetID @ err @ newline)
      | Some (p', Panic q) \<Rightarrow> Some (Panicked q, (p', ts), [])
      | Some (p', Return route) \<Rightarrow>
          Some (Running, (p', ts), route_tag p targetID @ ''path='' @ fmt_v (Path route)
            @ '' latency='' @ fmt_d (TotalLatency route) @ ''ms hops='' @ fmt_d (sint (Hops route)) @ newline))"
| "main_step inp Running (p, ts) =
     Some (Waiting, (p, ts), newline @ peer_tag p @ ''Running. Press Ctrl+C to stop.'' @ newline)"
| "main_step inp Waiting (p, ts) = Some (Stopping, (p, ts), newline @ peer_tag p @ ''Shutting down...'' @ newline)"
| "main_step inp Stopping (p, ts) =
     (let (p', line) = Close (mi_connections inp) (mi_close inp) p
      in Some (Stopped, (p', ts), line @ peer_tag p @ ''Shutdown complete.'' @ newline))"
| "main_step inp _ s = None"

text \<open>
  The start: flags, peer, listener. The \<open>id\<close> flag is an \<open>int\<close> and is converted to \<open>int32\<close>, which
  keeps its low 32 bits.
\<close>

definition main_start ::
  "(real \<Rightarrow> real) \<Rightarrow> int \<Rightarrow> int \<Rightarrow> string \<Rightarrow> file_system \<Rightarrow> error option \<Rightarrow> (error, main_pc \<times> 'c connect_state) outcome" where
  "main_start fl idFlag port bootstrapAddr fs listen =
     bind_outcome (NewPeerNode fl (word_of_int idFlag) port bootstrapAddr fs) (\<lambda>p.
     case listen of
       Some e \<Rightarrow> Fail (peer_tag p @ ''Failed to listen on port '' @ fmt_d port @ '': '' @ e)
     | None \<Rightarrow> Return (Created, (p, [])))"

text \<open>What the bootstrap server answers never contains the sentinel identifier -1.\<close>

definition no_sentinel :: "'c main_input \<Rightarrow> bool" where
  "no_sentinel inp \<longleftrightarrow> (\<forall>conn req resp. mi_register inp conn req = Inr resp
     \<longrightarrow> (\<forall>info \<in> set (rgs_Peers resp). pi_PeerId info \<noteq> -1))"

fun serving :: "main_pc \<Rightarrow> bool" where
  "serving Stopped = False"
| "serving (Fatal e) = False"
| "serving (Panicked q) = False"
| "serving pc = True"

text \<open>
  Every run of the program: the main goroutine, the connecting goroutines and the gRPC server. The
  server installs no recovery: a panic in the handler of an upload ends the process, whose
  memory no longer matters.
\<close>

inductive main_run :: "main_pc \<times> 'c connect_state \<times> string \<Rightarrow> bool" where
  started: "close_float fl \<Longrightarrow> main_start fl n port addr fs listen = Return (pc, s) \<Longrightarrow> (word_of_int n :: i32) \<noteq> -1 \<Longrightarrow> main_run (pc, s, [])"
| main_goroutine: "main_run (pc, s, out) \<Longrightarrow> no_sentinel inp \<Longrightarrow> main_step inp pc s = Some (pc', s', line)
    \<Longrightarrow> main_run (pc', s', out @ line)"
| connecting: "main_run (pc, (p, ts), out) \<Longrightarrow> serving pc \<Longrightarrow> i < length ts \<Longrightarrow> ts ! i = (info, tpc) \<Longrightarrow> timely inp
    \<Longrightarrow> task_step inp info tpc p = (tpc', p')
    \<Longrightarrow> main_run (pc, (p', ts[i := (info, tpc')]), out @ task_output inp info tpc p)"
| notified: "main_run (pc, (p, ts), out) \<Longrightarrow> serving pc \<Longrightarrow> npn_PeerId req \<noteq> -1 \<Longrightarrow> NotifyNewPeer now req p = (p', resp)
    \<Longrightarrow> main_run (pc, (p', ts), out @ NotifyNewPeer_output req p)"
| graph_requested: "main_run (pc, (p, ts), out) \<Longrightarrow> serving pc \<Longrightarrow> main_run (pc, (p, ts), out @ GetNetworkGraph_output req p)"
| routed: "main_run (pc, (p, ts), out) \<Longrightarrow> serving pc \<Longrightarrow> srv_CalculateRoute clk ord cn ce req p = Some (p', r)
    \<Longrightarrow> main_run (pc, (p', ts), out @ CalculateRoute_output req r p)"
| invalidated: "main_run (pc, (p, ts), out) \<Longrightarrow> serving pc \<Longrightarrow> InvalidateRouteCache req p = (p', resp)
    \<Longrightarrow> main_run (pc, (p', ts), out @ InvalidateRouteCache_output p)"
| uploaded: "main_run (pc, (p, ts), out) \<Longrightarrow> serving pc \<Longrightarrow> srv_UploadFile fileID req p fs = ((p', fs'), r)
    \<Longrightarrow> \<forall>q. r \<noteq> Panic q \<Longrightarrow> main_run (pc, (p', ts), out)"
| crashed: "main_run (pc, (p, ts), out) \<Longrightarrow> serving pc \<Longrightarrow> srv_UploadFile fileID req p fs = ((p', fs'), Panic q)
    \<Longrightarrow> main_run (Panicked q, (p, ts), out)"
| serve_failed: "main_run (pc, (p, ts), out) \<Longrightarrow> serving pc
    \<Longrightarrow> main_run (Fatal (serve_failure p e), (p, ts), out)"

section \<open>The target of the demonstration\<close>

lemma target_loop_spec:
  "(target_loop self ns t = t \<or> (\<exists>n \<in> set ns. nn_ID n = target_loop self ns t \<and> nn_ID n \<noteq> self))
   \<and> sint t \<le> sint (target_loop self ns t)
   \<and> (\<forall>n \<in> set ns. nn_ID n \<noteq> self \<longrightarrow> sint (nn_ID n) \<le> sint (target_loop self ns t))"
proof (induction ns arbitrary: t)
  case (Cons n ns)
  show ?case
    using Cons.IH [of t] Cons.IH [of "nn_ID n"] by auto
qed simp

text \<open>The target is the highest positive identifier of another known peer, when there is one.\<close>

definition highest_other :: "'c peer_node \<Rightarrow> i32 \<Rightarrow> bool" where
  "highest_other p t \<longleftrightarrow> t \<noteq> pn_ID p \<and> 0 < sint t \<and> node_map (pn_Graph p) t \<noteq> None
     \<and> (\<forall>u. u \<noteq> pn_ID p \<and> node_map (pn_Graph p) u \<noteq> None \<longrightarrow> sint u \<le> sint t)"

lemma GetNodes_node: "ng_wf g \<Longrightarrow> (\<exists>n \<in> set (GetNodes cs g). nn_ID n = u) \<longleftrightarrow> node_map g u \<noteq> None"
  using GetNodes_iff [of g _ cs] node_map_ID [of g u] by (metis not_None_eq)

lemma demo_target:
  assumes "ng_wf (pn_Graph p)" and "node_map (pn_Graph p) (pn_ID p) \<noteq> None"
  shows "highest_other p t \<Longrightarrow> main_step inp Demo (p, ts) = Some (Routing t, (p, ts), [])"
    and "\<nexists>t. highest_other p t \<Longrightarrow> main_step inp Demo (p, ts) = Some (Running, (p, ts), [])"
proof -
  let ?ns = "GetNodes (mi_nodes inp) (pn_Graph p)"
  let ?t = "target_loop (pn_ID p) ?ns 0"
  note node = GetNodes_node [OF assms(1), of "mi_nodes inp"]
  have sp: "?t = 0 \<or> (\<exists>n \<in> set ?ns. nn_ID n = ?t \<and> nn_ID n \<noteq> pn_ID p)"
    using target_loop_spec [of "pn_ID p" ?ns 0] by auto
  have above: "sint u \<le> sint ?t" if "node_map (pn_Graph p) u \<noteq> None" "u \<noteq> pn_ID p" for u
    using target_loop_spec [of "pn_ID p" ?ns 0] node [of u] that by metis
  have uniq: "u = v" if "highest_other p u" "highest_other p v" for u v
    using that unfolding highest_other_def by (meson order_antisym signed_word_eqI)
  have len: "length ?ns > 1" if u: "highest_other p u" for u
  proof -
    obtain m n where mn: "m \<in> set ?ns" "n \<in> set ?ns" "nn_ID m = u" "nn_ID n = pn_ID p"
      using u assms(2) node [of u] node [of "pn_ID p"] unfolding highest_other_def by blast
    then have "m \<noteq> n" using u by (auto simp: highest_other_def)
    then have "{m, n} \<subseteq> set ?ns" "card {m, n} = 2" using mn by auto
    then show ?thesis using card_length [of ?ns] card_mono [of "set ?ns" "{m, n}"] by simp
  qed
  have target: "highest_other p ?t" if "0 < sint ?t"
  proof -
    have "?t \<noteq> 0" using that by auto
    then show ?thesis using sp above that node [of ?t] by (auto simp: highest_other_def)
  qed
  show "main_step inp Demo (p, ts) = Some (Routing t, (p, ts), [])" if t: "highest_other p t"
  proof -
    have "0 < sint ?t" using t above [of t] by (auto simp: highest_other_def)
    moreover from this have "?t = t" using uniq [OF target t] by blast
    ultimately show ?thesis using len [OF t] by (simp add: Let_def)
  qed
  show "main_step inp Demo (p, ts) = Some (Running, (p, ts), [])" if "\<nexists>t. highest_other p t"
    using target that by (auto simp: Let_def)
qed

section \<open>What holds throughout\<close>

text \<open>Every edge of the graph stays, and every cached route belongs to an edge.\<close>

definition cache_linked :: "'c peer_node \<Rightarrow> bool" where
  "cache_linked p \<longleftrightarrow> (\<forall>now f t r. cache_Get now f t (dr_cache (pn_Router p)) = Some r \<longrightarrow> edge_map (pn_Graph p) (f, t) \<noteq> None)"

lemma cache_linked_mono:
  assumes "cache_linked p" and "dr_cache (pn_Router p') = dr_cache (pn_Router p)"
    and "\<And>e. edge_map (pn_Graph p) e \<noteq> None \<Longrightarrow> edge_map (pn_Graph p') e \<noteq> None"
  shows "cache_linked p'"
  using assms unfolding cache_linked_def by metis

lemma CalculateRoute_linked:
  assumes "peer_inv (p, ts)" and "cache_linked p"
    and "CalculateRoute clk ord (routing_view cn ce (pn_Graph p)) f t (pn_Router p) = Some (dr, r)"
  shows "cache_linked (p\<lparr>pn_Router := dr\<rparr>)"
  using assms(3)
proof (cases rule: CalculateRoute_cases)
  case (found path l r')
  have inv: "ng_wf (pn_Graph p)" "node_map (pn_Graph p) (-1) = None" "star_edges (pn_ID p) (pn_Graph p)"
    using assms(1) by (simp_all add: peer_inv_def)
  obtain q where "graph_walk (routing_view cn ce (pn_Graph p)) f q t"
    using dijkstra_Return [OF star_graph_ok [OF inv] found(3)] by blast
  then have "edge_map (pn_Graph p) (f, t) \<noteq> None" using star_walk [OF inv(1,3) _ found(1)] by blast
  moreover have "FromPeerID r' = f" "ToPeerID r' = t" using found(5) by simp_all
  ultimately show ?thesis
    using assms(2) found(6) by (auto simp: cache_linked_def cache_Get_Set split: if_splits)
qed (use assms(2) in \<open>auto simp: cache_linked_def\<close>)

lemma cache_linked_task:
  assumes "cache_linked p" and "task_step inp info tpc p = (tpc', p')"
  shows "cache_linked p'"
proof (rule cache_linked_mono [OF assms(1)])
  show "dr_cache (pn_Router p') = dr_cache (pn_Router p)" using task_step_graph(2) [OF assms(2)] by simp
  show "edge_map (pn_Graph p') e \<noteq> None" if "edge_map (pn_Graph p) e \<noteq> None" for e
    using that task_step_graph(5) [OF assms(2)] by (cases tpc) auto
qed

text \<open>The phases before the connection have no goroutines, those after it only finished ones.\<close>

fun phase_ok :: "main_pc \<Rightarrow> 'c connect_state \<Rightarrow> bool" where
  "phase_ok Created (p, ts) = (ts = [])"
| "phase_ok (Joined peers) (p, ts) = (ts = [] \<and> node_map (pn_Graph p) (pn_ID p) \<noteq> None \<and> (\<forall>info \<in> set peers. pi_PeerId info \<noteq> -1))"
| "phase_ok (Routing t) (p, ts) = (all_finished ts \<and> node_map (pn_Graph p) (pn_ID p) \<noteq> None
     \<and> t \<noteq> pn_ID p \<and> node_map (pn_Graph p) t \<noteq> None)"
| "phase_ok Connecting (p, ts) = (node_map (pn_Graph p) (pn_ID p) \<noteq> None)"
| "phase_ok (Fatal e) (p, ts) = True"
| "phase_ok (Panicked q) (p, ts) = True"
| "phase_ok pc (p, ts) = (all_finished ts \<and> node_map (pn_Graph p) (pn_ID p) \<noteq> None)"

definition main_inv :: "main_pc \<times> 'c connect_state \<times> string \<Rightarrow> bool" where
  "main_inv x \<longleftrightarrow> (case x of (pc, s, out) \<Rightarrow> peer_run s \<and> cache_linked (fst s) \<and> phase_ok pc s)"

text \<open>A change that keeps identity, nodes and goroutines keeps the phase.\<close>

lemma phase_ok_mono:
  assumes "phase_ok pc (p, ts)" and "pn_ID p' = pn_ID p"
    and "\<And>n. node_map (pn_Graph p) n \<noteq> None \<Longrightarrow> node_map (pn_Graph p') n \<noteq> None"
  shows "phase_ok pc (p', ts)"
  using assms by (cases pc) auto

text \<open>Within the phases that have goroutines, one of them may act; finished ones stay as they are.\<close>

lemma phase_ok_task:
  assumes "phase_ok pc (p, ts)" and i: "i < length ts" "ts ! i = (info, tpc)"
    and st: "task_step inp info tpc p = (tpc', p')"
  shows "phase_ok pc (p', ts[i := (info, tpc')])"
proof -
  have dom: "\<And>n. node_map (pn_Graph p) n \<noteq> None \<Longrightarrow> node_map (pn_Graph p') n \<noteq> None"
    using task_step_graph(6) [OF st] by blast
  note id = task_step_graph(1) [OF st]
  show ?thesis
  proof (cases "all_finished ts")
    case True
    then obtain r where "tpc = Finished r" using i nth_mem [OF i(1)] by (auto simp: all_finished_def)
    then have "p' = p" "ts[i := (info, tpc')] = ts" using st i by (auto simp: list_update_same_conv)
    then show ?thesis using assms(1) by simp
  next
    case False
    then have "ts \<noteq> []" by (auto simp: all_finished_def)
    then have "pc = Connecting \<or> (\<exists>e. pc = Fatal e) \<or> (\<exists>q. pc = Panicked q)" using assms(1) False by (cases pc) simp_all
    then show ?thesis using assms(1) dom [of "pn_ID p"] id by auto
  qed
qed

lemma RegisterWithBootstrap_cases:
  assumes "RegisterWithBootstrap now dial rpc p = (p', r)"
  obtains (ok) conn resp where "dial (pn_BootstrapAddr p) = Inr conn"
      "rpc conn \<lparr>rgq_PeerId = pn_ID p, rgq_Address = pn_Address p\<rparr> = Inr resp" "rgs_Success resp"
      "p' = p\<lparr>pn_Graph := AddNode now (pn_ID p) (pn_Address p) (pn_Graph p)\<rparr>" "r = Return (rgs_Peers resp)"
  | (failed) e where "p' = p" "r = Fail e"
proof (cases "dial (pn_BootstrapAddr p)")
  case (Inl e)
  then have "p' = p \<and> (\<exists>e. r = Fail e)" using assms by (auto simp: RegisterWithBootstrap_def)
  then show thesis using failed by blast
next
  case (Inr conn)
  show thesis
  proof (cases "rpc conn \<lparr>rgq_PeerId = pn_ID p, rgq_Address = pn_Address p\<rparr>")
    case (Inl e)
    then have "p' = p \<and> (\<exists>e. r = Fail e)" using assms Inr by (auto simp: RegisterWithBootstrap_def)
    then show thesis using failed by blast
  next
    case resp: (Inr resp)
    show thesis
    proof (cases "rgs_Success resp")
      case True
      then have "p' = p\<lparr>pn_Graph := AddNode now (pn_ID p) (pn_Address p) (pn_Graph p)\<rparr> \<and> r = Return (rgs_Peers resp)"
        using assms Inr resp by (auto simp: RegisterWithBootstrap_def)
      then show thesis using ok [OF Inr resp True] by blast
    next
      case False
      then have "p' = p \<and> (\<exists>e. r = Fail e)" using assms Inr resp by (auto simp: RegisterWithBootstrap_def)
      then show thesis using failed by blast
    qed
  qed
qed

lemma main_step_inv:
  assumes "main_inv (pc, (p, ts), out)" and ns: "no_sentinel inp"
    and st: "main_step inp pc (p, ts) = Some (pc', s', line)"
  shows "main_inv (pc', s', out')"
proof -
  have inv: "peer_run (p, ts)" "cache_linked p" "phase_ok pc (p, ts)" using assms(1) by (simp_all add: main_inv_def)
  note pinv = peer_run_inv [OF inv(1)]
  show ?thesis
  proof (cases pc)
    case Created
    obtain p' r where r: "RegisterWithBootstrap (mi_now inp) (mi_dial inp) (mi_register inp) p = (p', r)" by (metis surj_pair)
    have run: "peer_run (p', ts)" by (rule peer_run.registered [OF inv(1) r])
    from r show ?thesis
    proof (cases rule: RegisterWithBootstrap_cases)
      case (ok conn resp)
      have "cache_linked p'" by (rule cache_linked_mono [OF inv(2)]) (simp_all add: ok(4) overlay_simps)
      moreover have "\<forall>info \<in> set (rgs_Peers resp). pi_PeerId info \<noteq> -1"
        using ns ok(2) unfolding no_sentinel_def by blast
      ultimately show ?thesis
        using st r Created ok(4,5) inv(3) run by (auto simp: main_inv_def overlay_simps)
    next
      case (failed e)
      then show ?thesis using st r Created inv run by (auto simp: main_inv_def)
    qed
  next
    case (Joined peers)
    have "peer_run (p, spawn_tasks (pn_ID p) peers)"
      using inv(1,3) Joined by (intro peer_run.spawned [OF inv(1)]) (auto simp: all_finished_def)
    then show ?thesis using st Joined inv by (auto simp: main_inv_def all_finished_def split: if_splits)
  next
    case (Routing t)
    obtain dr r where c: "CalculateRoute (mi_clock inp) (mi_order inp) (routing_view (mi_nodes inp) (mi_edges inp) (pn_Graph p))
        (pn_ID p) t (pn_Router p) = Some (dr, r)" "\<forall>q. r \<noteq> Panic q"
      using CalculateRoute_total by blast
    have "peer_run (p\<lparr>pn_Router := dr\<rparr>, ts)"
      by (rule peer_run.routed [OF inv(1), of "mi_clock inp" "mi_order inp" "mi_nodes inp" "mi_edges inp"
            "\<lparr>rrq_FromPeerId = pn_ID p, rrq_ToPeerId = t\<rparr>"]) (simp add: srv_CalculateRoute_def c(1))
    moreover have "cache_linked (p\<lparr>pn_Router := dr\<rparr>)" by (rule CalculateRoute_linked [OF pinv inv(2) c(1)])
    ultimately show ?thesis
      using st Routing inv(3) c by (auto simp: main_inv_def peer_CalculateRoute_def split: outcome.splits)
  next
    case Stopping
    let ?p = "p\<lparr>pn_connections := []\<rparr>"
    have "peer_run (?p, ts)" by (rule peer_run.closed [OF inv(1)]) (simp add: Close_def)
    moreover have "cache_linked ?p" by (rule cache_linked_mono [OF inv(2)]) simp_all
    ultimately show ?thesis using st Stopping inv(3) by (auto simp: main_inv_def Close_def)
  next
    case Demo
    have wf: "ng_wf (pn_Graph p)" "node_map (pn_Graph p) (pn_ID p) \<noteq> None" using pinv inv(3) Demo by (auto simp: peer_inv_def)
    show ?thesis
    proof (cases "\<exists>t. highest_other p t")
      case True
      then obtain t where "highest_other p t" by blast
      with demo_target(1) [OF wf this] show ?thesis
        using st Demo inv by (auto simp: main_inv_def highest_other_def)
    next
      case False
      then show ?thesis using demo_target(2) [OF wf False] st Demo inv by (auto simp: main_inv_def)
    qed
  qed (use st inv in \<open>auto simp: main_inv_def split: if_splits\<close>)
qed

lemma main_step_no_panic: "main_step inp pc (p, ts) \<noteq> Some (Panicked q, s', line)"
proof (cases pc)
  case Created
  obtain p' r where r: "RegisterWithBootstrap (mi_now inp) (mi_dial inp) (mi_register inp) p = (p', r)" by (metis surj_pair)
  then show ?thesis by (cases rule: RegisterWithBootstrap_cases) (use Created r in auto)
next
  case (Routing t)
  obtain dr r where "CalculateRoute (mi_clock inp) (mi_order inp) (routing_view (mi_nodes inp) (mi_edges inp) (pn_Graph p))
      (pn_ID p) t (pn_Router p) = Some (dr, r)" "\<forall>q. r \<noteq> Panic q" using CalculateRoute_total by blast
  then show ?thesis using Routing by (cases r) (auto simp: peer_CalculateRoute_def)
qed (auto simp: Let_def split: prod.splits)

lemma main_run_inv: "main_run x \<Longrightarrow> main_inv x"
proof (induction rule: main_run.induct)
  case (started fl n port addr fs listen pc s)
  then obtain p :: "'a peer_node" where p: "NewPeerNode fl (word_of_int n) port addr fs = Return p" "pc = Created" "s = (p, [])"
    by (auto simp: main_start_def outcome_elims split: option.splits)
  then have "peer_run (p, [])" using started(1,3) peer_run.created by blast
  moreover have "cache_linked p"
    using NewPeerNode_Return(3) [OF p(1)] by (simp add: cache_linked_def NewDijkstraRouter_def)
  ultimately show ?case by (simp add: main_inv_def p(2,3))
next
  case (main_goroutine pc s out inp pc' s' line)
  then show ?case using main_step_inv by (metis surj_pair)
next
  case (connecting pc p ts out i info tpc inp tpc' p')
  then show ?case
    using peer_run.goroutine phase_ok_task cache_linked_task by (fastforce simp: main_inv_def)
next
  case (notified pc p ts out req now p' resp)
  then have "peer_run (p', ts)" "cache_linked p" "phase_ok pc (p, ts)"
    using peer_run.notified by (auto simp: main_inv_def)
  moreover have p': "p' = p\<lparr>pn_Graph := AddNode now (npn_PeerId req) (npn_Address req) (pn_Graph p)\<rparr>"
    using notified(4) by (simp add: NotifyNewPeer_def)
  ultimately show ?case
    using cache_linked_mono [of p p'] phase_ok_mono [of pc p ts p'] by (simp add: main_inv_def overlay_simps)
next
  case (graph_requested pc p ts out req)
  then show ?case by (simp add: main_inv_def)
next
  case (routed pc p ts out clk ord cn ce req p' r)
  then have run: "peer_run (p', ts)" "peer_run (p, ts)" "cache_linked p" "phase_ok pc (p, ts)"
    using peer_run.routed by (auto simp: main_inv_def)
  obtain dr r0 where c: "CalculateRoute clk ord (routing_view cn ce (pn_Graph p)) (rrq_FromPeerId req)
      (rrq_ToPeerId req) (pn_Router p) = Some (dr, r0)" "p' = p\<lparr>pn_Router := dr\<rparr>"
    using routed(3) by (auto simp: srv_CalculateRoute_def)
  then show ?case
    using run CalculateRoute_linked [OF peer_run_inv [OF run(2)] run(3) c(1)] phase_ok_mono [of pc p ts p']
    by (simp add: main_inv_def)
next
  case (invalidated pc p ts out req p' resp)
  then have run: "peer_run (p', ts)" "phase_ok pc (p, ts)" using peer_run.invalidated by (auto simp: main_inv_def)
  have p': "p' = p\<lparr>pn_Router := fst (InvalidateCache (pn_Router p))\<rparr>"
    using invalidated(3) by (auto simp: InvalidateRouteCache_def split: prod.splits)
  then have "cache_linked p'" by (simp add: cache_linked_def)
  then show ?case using run phase_ok_mono [of pc p ts p'] p' by (simp add: main_inv_def)
next
  case (uploaded pc p ts out fileID req fs p' fs' r)
  then have run: "peer_run (p', ts)" "phase_ok pc (p, ts)" "cache_linked p"
    using peer_run.uploaded by (auto simp: main_inv_def)
  obtain sm where p': "p' = p\<lparr>pn_Storage := sm\<rparr>" using uploaded(3) by (auto simp: srv_UploadFile_def split: prod.splits)
  have "cache_linked p'" by (rule cache_linked_mono [OF run(3)]) (simp_all add: p')
  then show ?case using run phase_ok_mono [of pc p ts p'] p' by (simp add: main_inv_def)
next
  case (crashed pc p ts out fileID req fs p' fs' q)
  then show ?case by (simp add: main_inv_def)
next
  case (serve_failed pc p ts out e)
  then show ?case by (simp add: main_inv_def)
qed

text \<open>The process dies of a panic only in the upload of an empty file, or of one above 512 TiB.\<close>

lemma program_dies_only_by_bad_upload:
  assumes "main_run (Panicked q, (p, ts), out)"
  shows "\<exists>fileID req fs. snd (srv_UploadFile fileID req p fs) = Panic q
    \<and> (ufq_FileData req = [] \<or> int (length (ufq_FileData req)) > max_file)"
  using assms
proof cases
  case (started fl n port addr fs listen)
  then show ?thesis by (auto simp: main_start_def outcome_elims split: option.splits)
next
  case (main_goroutine pc s out0 inp line)
  then show ?thesis using main_step_no_panic by (metis surj_pair)
next
  case (crashed pc fileID req fs p' fs')
  have "peer_run (p, ts)" using main_run_inv [OF crashed(1)] by (simp add: main_inv_def)
  then have "bloom_wf (sm_Bloom (pn_Storage p))" using peer_run_wf by (fastforce simp: peer_wf_def filter_typed_def)
  moreover obtain sm r' where u: "UploadFile fileID (ufq_FileName req) (ufq_FileData req) (pn_Storage p) fs = ((sm, fs'), r')"
    "bind_outcome r' (\<lambda>metadata. Return \<lparr>ufs_FileId = fm_FileID metadata, ufs_TotalChunks = fm_TotalChunks metadata,
        ufs_Chunks = chunk_infos metadata\<rparr>) = Panic q"
    using crashed(3) by (auto simp: srv_UploadFile_def split: prod.splits)
  ultimately have "ufq_FileData req = [] \<or> int (length (ufq_FileData req)) > max_file"
    using UploadFile_panics_iff [OF u(1)] by (cases r') fastforce+
  then show ?thesis using crashed(3) by (metis snd_conv)
qed simp_all

section \<open>A sample run\<close>











section \<open>Results\<close>

text \<open>
  The demonstration asks for the right peer. In every run, when the main goroutine comes to
  it, it chooses the highest positive identifier among the known peers other than its own,
  for every order of the node map, and skips the demonstration when there is none.
\<close>

lemma demo_picks_highest_peer:
  assumes "main_run (Demo, (p, ts), out)"
  shows "(\<forall>t. highest_other p t \<longrightarrow> main_step inp Demo (p, ts) = Some (Routing t, (p, ts), []))
    \<and> ((\<nexists>t. highest_other p t) \<longrightarrow> main_step inp Demo (p, ts) = Some (Running, (p, ts), []))"
proof -
  have "peer_run (p, ts)" "phase_ok Demo (p, ts)" using main_run_inv [OF assms] by (simp_all add: main_inv_def)
  then have wf: "ng_wf (pn_Graph p)" "node_map (pn_Graph p) (pn_ID p) \<noteq> None"
    using peer_run_inv by (auto simp: peer_inv_def)
  show ?thesis using demo_target(1) [OF wf] demo_target(2) [OF wf] by blast
qed






end
