(* ===== verification/Network_System.thy ===== *)
theory Network_System
  imports Peer_Main
begin

text \<open>
  The whole network: the bootstrap server and any number of peer programs, each with its own
  goroutines, taking steps in any order. A registration is one exchange with the server,
  whose answer may get lost; the server may die at any time. Peers have different
  identifiers, as the description of the \<open>id\<close> flag asks (\<open>Peer ID (unique integer)\<close>).
\<close>

section \<open>Definitions\<close>

type_synonym 'c process = "main_pc \<times> 'c connect_state \<times> string"

text \<open>The registrations the server has handled, in order: the lines of its output.\<close>

record 'c network =
  nw_boot :: bootstrap_server
  nw_log :: "register_request list"
  nw_dead :: "error option"
  nw_procs :: "nat \<rightharpoonup> 'c process"

fun proc_id :: "'c process \<Rightarrow> i32" where
  "proc_id (pc, (p, ts), out) = pn_ID p"

fun proc_address :: "'c process \<Rightarrow> string" where
  "proc_address (pc, (p, ts), out) = pn_Address p"

definition bootstrap_output :: "'c network \<Rightarrow> string" where
  "bootstrap_output w = ''[Bootstrap] Server listening on :5000'' @ newline @ concat (map registered_line (nw_log w))
     @ (case nw_dead w of None \<Rightarrow> [] | Some e \<Rightarrow> ''[Bootstrap] Failed to serve: '' @ e @ newline)"

definition set_proc :: "nat \<Rightarrow> 'c process \<Rightarrow> 'c network \<Rightarrow> 'c network" where
  "set_proc i x w = w\<lparr>nw_procs := (nw_procs w)(i \<mapsto> x)\<rparr>"

text \<open>What happens in a serving process besides its main goroutine.\<close>

inductive background_step :: "'c process \<Rightarrow> 'c process \<Rightarrow> bool" where
  connecting: "serving pc \<Longrightarrow> i < length ts \<Longrightarrow> ts ! i = (info, tpc) \<Longrightarrow> timely inp
    \<Longrightarrow> task_step inp info tpc p = (tpc', p') \<Longrightarrow> background_step (pc, (p, ts), out) (pc, (p', ts[i := (info, tpc')]), out @ task_output inp info tpc p)"
| routed: "serving pc \<Longrightarrow> srv_CalculateRoute clk ord cn ce req p = Some (p', r)
    \<Longrightarrow> background_step (pc, (p, ts), out) (pc, (p', ts), out @ CalculateRoute_output req r p)"
| graph_requested: "serving pc \<Longrightarrow> background_step (pc, (p, ts), out) (pc, (p, ts), out @ GetNetworkGraph_output req p)"
| invalidated: "serving pc \<Longrightarrow> InvalidateRouteCache req p = (p', resp)
    \<Longrightarrow> background_step (pc, (p, ts), out) (pc, (p', ts), out @ InvalidateRouteCache_output p)"
| uploaded: "serving pc \<Longrightarrow> srv_UploadFile fileID req p fs = ((p', fs'), r) \<Longrightarrow> \<forall>q. r \<noteq> Panic q
    \<Longrightarrow> background_step (pc, (p, ts), out) (pc, (p', ts), out)"
| crashed: "serving pc \<Longrightarrow> srv_UploadFile fileID req p fs = ((p', fs'), Panic q)
    \<Longrightarrow> background_step (pc, (p, ts), out) (Panicked q, (p, ts), out)"
| serve_failed: "serving pc
    \<Longrightarrow> background_step (pc, (p, ts), out) (Fatal (serve_failure p e), (p, ts), out)"

definition registration :: "'c peer_node \<Rightarrow> register_request" where
  "registration p = \<lparr>rgq_PeerId = pn_ID p, rgq_Address = pn_Address p\<rparr>"

definition unanswered :: "'c main_input \<Rightarrow> 'c peer_node \<Rightarrow> bool" where
  "unanswered inp p \<longleftrightarrow> (\<forall>conn resp. mi_register inp conn (registration p) \<noteq> Inr resp)"

text \<open>
  The runs of a network. A registration that the server handles is answered or its answer is
  lost; one that it does not handle fails. Nothing in the repository calls \<open>NotifyNewPeer\<close>; a
  client that does is taken to name a peer of the network.
\<close>

inductive net_run :: "'c network \<Rightarrow> bool" where
  started: "bootstrap_start listen = Return (b, line)
    \<Longrightarrow> net_run \<lparr>nw_boot = b, nw_log = [], nw_dead = None, nw_procs = Map.empty\<rparr>"
| server_died: "net_run w \<Longrightarrow> nw_dead w = None \<Longrightarrow> net_run (w\<lparr>nw_dead := Some e\<rparr>)"
| launched: "net_run w \<Longrightarrow> nw_procs w i = None \<Longrightarrow> close_float fl
    \<Longrightarrow> main_start fl n port addr fs listen = Return (pc, s) \<Longrightarrow> (word_of_int n :: i32) \<noteq> -1
    \<Longrightarrow> \<forall>x \<in> ran (nw_procs w). proc_id x \<noteq> word_of_int n \<Longrightarrow> net_run (set_proc i (pc, s, []) w)"
| registered: "net_run w \<Longrightarrow> nw_dead w = None \<Longrightarrow> nw_procs w i = Some (Created, (p, ts), out)
    \<Longrightarrow> RegisterPeer now cs sh (registration p) (nw_boot w) = (b, resp)
    \<Longrightarrow> mi_register inp = (\<lambda>conn req. Inr resp) \<Longrightarrow> mi_dial inp (pn_BootstrapAddr p) = Inr conn
    \<Longrightarrow> main_step inp Created (p, ts) = Some (pc', s', line)
    \<Longrightarrow> net_run (set_proc i (pc', s', out @ line) (w\<lparr>nw_boot := b, nw_log := nw_log w @ [registration p]\<rparr>))"
| answer_lost: "net_run w \<Longrightarrow> nw_dead w = None \<Longrightarrow> nw_procs w i = Some (Created, (p, ts), out)
    \<Longrightarrow> RegisterPeer now cs sh (registration p) (nw_boot w) = (b, resp) \<Longrightarrow> unanswered inp p
    \<Longrightarrow> main_step inp Created (p, ts) = Some (pc', s', line)
    \<Longrightarrow> net_run (set_proc i (pc', s', out @ line) (w\<lparr>nw_boot := b, nw_log := nw_log w @ [registration p]\<rparr>))"
| unreached: "net_run w \<Longrightarrow> nw_procs w i = Some (Created, (p, ts), out) \<Longrightarrow> unanswered inp p
    \<Longrightarrow> main_step inp Created (p, ts) = Some (pc', s', line) \<Longrightarrow> net_run (set_proc i (pc', s', out @ line) w)"
| main_goroutine: "net_run w \<Longrightarrow> nw_procs w i = Some (pc, s, out) \<Longrightarrow> pc \<noteq> Created
    \<Longrightarrow> main_step inp pc s = Some (pc', s', line) \<Longrightarrow> net_run (set_proc i (pc', s', out @ line) w)"
| background: "net_run w \<Longrightarrow> nw_procs w i = Some x \<Longrightarrow> background_step x y \<Longrightarrow> net_run (set_proc i y w)"
| notified: "net_run w \<Longrightarrow> nw_procs w i = Some (pc, (p, ts), out) \<Longrightarrow> serving pc
    \<Longrightarrow> nw_procs w j = Some y \<Longrightarrow> npn_PeerId req = proc_id y \<Longrightarrow> npn_Address req = proc_address y
    \<Longrightarrow> NotifyNewPeer now req p = (p', resp)
    \<Longrightarrow> net_run (set_proc i (pc, (p', ts), out @ NotifyNewPeer_output req p) w)"

section \<open>What a process knows\<close>

text \<open>The peers a process is linked to or may still be linked to, and the addresses it knows.\<close>

fun pc_infos :: "main_pc \<Rightarrow> peer_info set" where
  "pc_infos (Joined peers) = set peers"
| "pc_infos pc = {}"

fun contacts :: "'c process \<Rightarrow> peer_info set" where
  "contacts (pc, (p, ts), out) = pc_infos pc \<union> fst ` set ts"

fun links :: "'c process \<Rightarrow> i32 set" where
  "links (pc, (p, ts), out) = {t. \<exists>f. edge_map (pn_Graph p) (f, t) \<noteq> None}"

definition targets :: "'c process \<Rightarrow> i32 set" where
  "targets x = links x \<union> pi_PeerId ` contacts x"

fun known_nodes :: "'c process \<Rightarrow> (i32 \<times> string) set" where
  "known_nodes (pc, (p, ts), out) = {(k, nn_Address n) | k n. node_map (pn_Graph p) k = Some n}"

definition known :: "'c process \<Rightarrow> (i32 \<times> string) set" where
  "known x = known_nodes x \<union> (\<lambda>info. (pi_PeerId info, pi_Address info)) ` contacts x"

text \<open>A step of a process other than its registration: it learns nothing new.\<close>

definition learns_nothing :: "'c process \<Rightarrow> 'c process \<Rightarrow> bool" where
  "learns_nothing x y \<longleftrightarrow> proc_id y = proc_id x \<and> proc_address y = proc_address x
     \<and> targets y \<subseteq> targets x \<and> known y \<subseteq> known x"

lemma learns_nothingI:
  "proc_id y = proc_id x \<Longrightarrow> proc_address y = proc_address x \<Longrightarrow> links y \<subseteq> links x \<Longrightarrow> contacts y \<subseteq> contacts x
   \<Longrightarrow> known_nodes y \<subseteq> known_nodes x \<Longrightarrow> learns_nothing x y"
  unfolding learns_nothing_def targets_def known_def by blast

lemma task_step_learns_nothing:
  assumes "i < length ts" and "ts ! i = (info, tpc)" and st: "task_step inp info tpc p = (tpc', p')"
  shows "learns_nothing (pc, (p, ts), out) (pc, (p', ts[i := (info, tpc')]), out')"
proof -
  have same: "fst ` set (ts[i := (info, tpc')]) = fst ` set ts"
  proof -
    have "map fst (ts[i := (info, tpc')]) = map fst ts"
      using assms(1,2) by (intro nth_equalityI) (auto simp: nth_list_update)
    then show ?thesis by (metis list.set_map)
  qed
  have mem: "info \<in> fst ` set ts" using assms(1,2) nth_mem [OF assms(1)] by force
  have keep: "pn_ID p' = pn_ID p" "pn_Address p' = pn_Address p"
    using st by (cases tpc; auto split: sum.splits)+
  have edges: "{t. \<exists>f. edge_map (pn_Graph p') (f, t) \<noteq> None} \<subseteq> insert (pi_PeerId info) {t. \<exists>f. edge_map (pn_Graph p) (f, t) \<noteq> None}"
    using task_step_graph(5) [OF st] by (cases tpc) auto
  have nodes: "node_map (pn_Graph p') k = Some n
      \<Longrightarrow> node_map (pn_Graph p) k = Some n \<or> (k = pi_PeerId info \<and> nn_Address n = pi_Address info)" for k n
    using st by (cases tpc) (auto simp: overlay_simps split: sum.splits if_splits)
  let ?x = "(pc, (p, ts), out)" and ?y = "(pc, (p', ts[i := (info, tpc')]), out')"
  have contacts: "contacts ?y = contacts ?x" "info \<in> contacts ?x" using same mem by simp_all
  have "links ?y \<subseteq> insert (pi_PeerId info) (links ?x)" using edges by simp
  then have "targets ?y \<subseteq> targets ?x" using contacts unfolding targets_def by blast
  moreover have "known_nodes ?y \<subseteq> insert (pi_PeerId info, pi_Address info) (known_nodes ?x)" using nodes by force
  then have "known ?y \<subseteq> known ?x" using contacts unfolding known_def by blast
  ultimately show ?thesis using keep by (simp add: learns_nothing_def)
qed

lemma background_learns_nothing: "background_step x y \<Longrightarrow> learns_nothing x y"
proof (induction rule: background_step.induct)
  case connecting
  then show ?case using task_step_learns_nothing by blast
qed (auto simp: learns_nothing_def targets_def known_def srv_CalculateRoute_def InvalidateRouteCache_def
      srv_UploadFile_def split: prod.splits)

lemma main_step_learns_nothing:
  assumes "main_step inp pc (p, ts) = Some (pc', s', line)" and "pc \<noteq> Created"
  shows "learns_nothing (pc, (p, ts), out) (pc', s', out')" and "pc' \<noteq> Created"
proof -
  have sub: "fst ` set (spawn_tasks self infos) \<subseteq> set infos" for self infos
    using spawned_ids by fastforce
  have "learns_nothing (pc, (p, ts), out) (pc', s', out') \<and> pc' \<noteq> Created"
  proof (cases pc)
    case (Joined peers)
    show ?thesis
    proof (cases "peers = []")
      case True
      then show ?thesis using Joined assms(1) by (auto intro: learns_nothingI)
    next
      case False
      then have y: "pc' = Connecting" "s' = (p, spawn_tasks (pn_ID p) peers)" using Joined assms(1) by simp_all
      have "contacts (pc', s', out') \<subseteq> contacts (pc, (p, ts), out)"
        unfolding Joined y using sub [of "pn_ID p" peers] by simp (erule le_supI1)
      then have "learns_nothing (pc, (p, ts), out) (pc', s', out')" by (rule learns_nothingI [rotated 3]) (simp_all add: y)
      then show ?thesis by (simp add: y)
    qed
  next
    case (Routing t)
    then show ?thesis
      using assms(1) by (auto simp: learns_nothing_def targets_def known_def peer_CalculateRoute_def
        split: option.splits outcome.splits prod.splits)
  qed (use assms in \<open>auto simp: learns_nothing_def targets_def known_def Close_def Let_def split: if_splits\<close>)
  then show "learns_nothing (pc, (p, ts), out) (pc', s', out')" "pc' \<noteq> Created" by blast+
qed

lemma background_not_Created: "background_step x y \<Longrightarrow> fst y = Created \<Longrightarrow> fst x = Created"
  by (induction rule: background_step.induct) auto

text \<open>The two outcomes of a registration.\<close>

lemma registration_answered:
  assumes "main_step inp Created (p, ts) = Some (pc', s', line)" and "mi_register inp = (\<lambda>conn req. Inr resp)"
    and "mi_dial inp (pn_BootstrapAddr p) = Inr conn" and "rgs_Success resp"
  shows "pc' = Joined (rgs_Peers resp)"
    and "s' = (p\<lparr>pn_Graph := AddNode (mi_now inp) (pn_ID p) (pn_Address p) (pn_Graph p)\<rparr>, ts)"
  using assms by (auto simp: RegisterWithBootstrap_def)

lemma registration_unanswered:
  assumes "main_step inp Created (p, ts) = Some (pc', s', line)" and "unanswered inp p"
  shows "s' = (p, ts)" and "\<exists>e. pc' = Fatal e"
proof -
  obtain p' r where r: "RegisterWithBootstrap (mi_now inp) (mi_dial inp) (mi_register inp) p = (p', r)" by (metis surj_pair)
  then have "s' = (p, ts) \<and> (\<exists>e. pc' = Fatal e)"
  proof (cases rule: RegisterWithBootstrap_cases)
    case (ok conn resp)
    then show ?thesis using assms(2) by (simp add: unanswered_def registration_def)
  next
    case (failed e)
    then show ?thesis using assms(1) r by auto
  qed
  then show "s' = (p, ts)" "\<exists>e. pc' = Fatal e" by blast+
qed

section \<open>The order of registrations\<close>

text \<open>In the list \<open>b\<close> occurs, and \<open>a\<close> occurs before it.\<close>

definition earlier :: "'a list \<Rightarrow> 'a \<Rightarrow> 'a \<Rightarrow> bool" where
  "earlier xs a b \<longleftrightarrow> b \<in> set xs \<and> a \<in> set (takeWhile (\<lambda>x. x \<noteq> b) xs)"

lemma earlier_members: "earlier xs a b \<Longrightarrow> a \<in> set xs \<and> b \<in> set xs \<and> a \<noteq> b"
  unfolding earlier_def using set_takeWhileD by fastforce

lemma earlier_append: "earlier xs a b \<Longrightarrow> earlier (xs @ ys) a b"
proof -
  assume e: "earlier xs a b"
  then have "takeWhile (\<lambda>x. x \<noteq> b) (xs @ ys) = takeWhile (\<lambda>x. x \<noteq> b) xs"
    by (intro takeWhile_append1 [of b]) (simp_all add: earlier_def)
  then show ?thesis using e by (simp add: earlier_def)
qed

lemma earlier_last: "a \<in> set xs \<Longrightarrow> b \<notin> set xs \<Longrightarrow> earlier (xs @ [b]) a b"
proof -
  assume "a \<in> set xs" "b \<notin> set xs"
  moreover from this have "takeWhile (\<lambda>x. x \<noteq> b) (xs @ [b]) = xs @ takeWhile (\<lambda>x. x \<noteq> b) [b]"
    by (intro takeWhile_append2) auto
  ultimately show ?thesis by (simp add: earlier_def)
qed

lemma earlier_asym: "earlier xs a b \<Longrightarrow> \<not> earlier xs b a"
  by (induction xs) (auto simp: earlier_def split: if_splits)

section \<open>The invariant of the network\<close>

definition member :: "'c network \<Rightarrow> i32 \<Rightarrow> string \<Rightarrow> bool" where
  "member w k a \<longleftrightarrow> (\<exists>x \<in> ran (nw_procs w). proc_id x = k \<and> proc_address x = a)"

abbreviation reg_ids :: "register_request list \<Rightarrow> i32 list" where
  "reg_ids \<equiv> map rgq_PeerId"

definition proc_ok :: "'c network \<Rightarrow> 'c process \<Rightarrow> bool" where
  "proc_ok w x \<longleftrightarrow> main_run x \<and> (\<forall>(k, a) \<in> known x. member w k a)
     \<and> (\<forall>t \<in> targets x. earlier (reg_ids (nw_log w)) t (proc_id x)) \<and> finite (targets x) \<and> card (targets x) \<le> 3
     \<and> (fst x = Created \<longrightarrow> proc_id x \<notin> set (reg_ids (nw_log w)))"

definition registry_ok :: "('c network) \<Rightarrow> bool" where
  "registry_ok w \<longleftrightarrow> bt_wf (nw_boot w) \<and> distinct (reg_ids (nw_log w))
     \<and> dom (gm_get (bt_peers (nw_boot w))) = set (reg_ids (nw_log w))
     \<and> (\<forall>k info. gm_get (bt_peers (nw_boot w)) k = Some info \<longrightarrow> member w k (pi_Address info))"

definition net_inv :: "'c network \<Rightarrow> bool" where
  "net_inv w \<longleftrightarrow> registry_ok w \<and> (\<forall>x \<in> ran (nw_procs w). proc_ok w x)
     \<and> (\<forall>i j x y. nw_procs w i = Some x \<longrightarrow> nw_procs w j = Some y \<longrightarrow> proc_id x = proc_id y \<longrightarrow> i = j)"

lemma proc_of: "net_inv w \<Longrightarrow> nw_procs w i = Some x \<Longrightarrow> proc_ok w x"
  unfolding net_inv_def ran_def by blast

lemma set_proc_simps [simp]:
  "nw_boot (set_proc i y w) = nw_boot w" "nw_log (set_proc i y w) = nw_log w" "nw_dead (set_proc i y w) = nw_dead w"
  "nw_procs (set_proc i y w) = (nw_procs w)(i \<mapsto> y)"
  by (simp_all add: set_proc_def)

lemma member_update:
  assumes "member w k a" and "\<And>x. nw_procs w i = Some x \<Longrightarrow> proc_id y = proc_id x \<and> proc_address y = proc_address x"
    and "nw_procs w' = (nw_procs w)(i \<mapsto> y)"
  shows "member w' k a"
proof -
  obtain j x where x: "nw_procs w j = Some x" "proc_id x = k" "proc_address x = a"
    using assms(1) by (auto simp: member_def ran_def)
  show ?thesis
  proof (cases "j = i")
    case True
    then have "nw_procs w' i = Some y" "proc_id y = k" "proc_address y = a" using x assms(2,3) by simp_all
    then show ?thesis unfolding member_def ran_def by blast
  next
    case False
    then have "nw_procs w' j = Some x" using x(1) assms(3) by simp
    then show ?thesis using x(2,3) unfolding member_def ran_def by blast
  qed
qed

text \<open>A process takes a step; the server may have handled its registration.\<close>

lemma net_inv_update:
  assumes inv: "net_inv w" and i: "nw_procs w i = Some x"
    and keep: "proc_id y = proc_id x" "proc_address y = proc_address x"
    and w': "w' = set_proc i y (w\<lparr>nw_boot := b, nw_log := nw_log w @ l\<rparr>)"
    and l: "set (reg_ids l) \<subseteq> {proc_id x}"
    and y: "main_run y" "known y \<subseteq> known x \<union> {(k, a). member w k a}"
      "\<forall>t \<in> targets y. earlier (reg_ids (nw_log w @ l)) t (proc_id x)" "finite (targets y)" "card (targets y) \<le> 3"
      "fst y = Created \<longrightarrow> proc_id x \<notin> set (reg_ids (nw_log w @ l))"
    and b: "bt_wf b" "distinct (reg_ids (nw_log w @ l))" "dom (gm_get (bt_peers b)) = set (reg_ids (nw_log w @ l))"
      "\<forall>k info. gm_get (bt_peers b) k = Some info \<longrightarrow> member w k (pi_Address info)"
  shows "net_inv w'"
proof -
  have procs: "nw_procs w' = (nw_procs w)(i \<mapsto> y)" and log: "nw_log w' = nw_log w @ l" and boot: "nw_boot w' = b"
    by (simp_all add: w')
  have mem: "member w' k a" if "member w k a" for k a
    by (rule member_update [OF that _ procs]) (use i keep in simp)
  have uniq: "j = i" if "nw_procs w j = Some z" "proc_id z = proc_id x" for j z
    using inv i that unfolding net_inv_def by blast
  have ok: "proc_ok w' z" if z: "nw_procs w' j = Some z" for j z
  proof (cases "j = i")
    case True
    have "member w k a" if "(k, a) \<in> known x" for k a using proc_of [OF inv i] that by (auto simp: proc_ok_def)
    then have "\<forall>(k, a) \<in> known y. member w' k a" using mem y(2) by blast
    then show ?thesis using True z procs y keep log by (simp add: proc_ok_def)
  next
    case False
    then have z': "nw_procs w j = Some z" using z procs by simp
    have "proc_id z \<noteq> proc_id x" using uniq [OF z'] False by blast
    then have "proc_id z \<notin> set (reg_ids l)" using l by blast
    then show ?thesis
      using proc_of [OF inv z'] mem earlier_append [of "reg_ids (nw_log w)" _ _ "reg_ids l"] log
      by (auto simp: proc_ok_def)
  qed
  have "registry_ok w'" using b mem log boot by (simp add: registry_ok_def)
  moreover have "\<forall>j k u z. nw_procs w' j = Some u \<longrightarrow> nw_procs w' k = Some z \<longrightarrow> proc_id u = proc_id z \<longrightarrow> j = k"
    using inv i keep unfolding procs net_inv_def by (metis fun_upd_apply option.inject)
  ultimately show ?thesis using ok unfolding net_inv_def ran_def by blast
qed

lemma net_inv_silent:
  assumes "net_inv w" and i: "nw_procs w i = Some x" and "learns_nothing x y" and "main_run y"
    and "fst y = Created \<Longrightarrow> fst x = Created"
  shows "net_inv (set_proc i y w)"
proof (rule net_inv_update [OF assms(1,2), where l = "[]" and b = "nw_boot w"])
  have ok: "proc_ok w x" by (rule proc_of [OF assms(1,2)])
  have reg: "registry_ok w" using assms(1) by (simp add: net_inv_def)
  show "finite (targets y)" using ok assms(3) finite_subset by (auto simp: proc_ok_def learns_nothing_def)
  show "card (targets y) \<le> 3"
    using ok assms(3) card_mono [of "targets x" "targets y"] by (auto simp: proc_ok_def learns_nothing_def)
qed (use assms(3-5) proc_of [OF assms(1,2)] assms(1) in
  \<open>auto simp: learns_nothing_def proc_ok_def net_inv_def registry_ok_def set_proc_def\<close>)

lemma main_run_background: "background_step x y \<Longrightarrow> main_run x \<Longrightarrow> main_run y"
proof (induction rule: background_step.induct)
  case connecting
  then show ?case using main_run.connecting by blast
next
  case routed
  then show ?case using main_run.routed by blast
next
  case graph_requested
  then show ?case using main_run.graph_requested by blast
next
  case invalidated
  then show ?case using main_run.invalidated by blast
next
  case uploaded
  then show ?case using main_run.uploaded by blast
next
  case crashed
  then show ?case using main_run.crashed by blast
next
  case serve_failed
  then show ?case using main_run.serve_failed by blast
qed

text \<open>In the first phase a peer has no links and no contacts.\<close>

lemma created_process:
  assumes "net_inv w" and "nw_procs w i = Some (Created, (p, ts), out)"
  shows "ts = []" and "edge_map (pn_Graph p) = Map.empty" and "pn_ID p \<notin> set (reg_ids (nw_log w))" and "pn_ID p \<noteq> -1"
proof -
  have ok: "proc_ok w (Created, (p, ts), out)" by (rule proc_of [OF assms])
  then have "main_run (Created, (p, ts), out)" by (simp add: proc_ok_def)
  then have main: "main_inv (Created, (p, ts), out)" by (rule main_run_inv)
  then show "ts = []" by (simp add: main_inv_def)
  have run: "peer_run (p, ts)" using main by (auto simp: main_inv_def)
  then show "pn_ID p \<noteq> -1" using peer_run_inv by (fastforce simp: peer_inv_def)
  show new: "pn_ID p \<notin> set (reg_ids (nw_log w))" using ok by (simp add: proc_ok_def)
  have "targets (Created, (p, ts), out) = {}"
    using ok earlier_members new unfolding proc_ok_def by fastforce
  then have "\<forall>f t. edge_map (pn_Graph p) (f, t) = None" by (auto simp: targets_def)
  then show "edge_map (pn_Graph p) = Map.empty" by auto
qed

lemma registered_step:
  assumes inv: "net_inv w" and i: "nw_procs w i = Some (Created, (p, ts), out)"
    and reg: "RegisterPeer now cs sh (registration p) (nw_boot w) = (b, resp)"
    and y: "main_run y" "proc_id y = pn_ID p" "proc_address y = pn_Address p" "fst y \<noteq> Created"
    and learn: "targets y \<subseteq> pi_PeerId ` set (rgs_Peers resp)"
      "known y \<subseteq> known (Created, (p, ts), out) \<union> {(pn_ID p, pn_Address p)}
         \<union> (\<lambda>info. (pi_PeerId info, pi_Address info)) ` set (rgs_Peers resp)"
  shows "net_inv (set_proc i y (w\<lparr>nw_boot := b, nw_log := nw_log w @ [registration p]\<rparr>))"
proof -
  let ?x = "(Created, (p, ts), out)" and ?n = "pn_ID p"
  have reg': "registry_ok w" using inv by (simp add: net_inv_def)
  then have wf: "bt_wf (nw_boot w)" by (simp add: registry_ok_def)
  note new = created_process(3) [OF inv i]
  note ans = register_answers_others [OF wf reg]
  have self: "member w ?n (pn_Address p)" using i unfolding member_def ran_def by fastforce
  have told: "member w (pi_PeerId info) (pi_Address info) \<and> pi_PeerId info \<in> set (reg_ids (nw_log w))"
    if "info \<in> set (rgs_Peers resp)" for info
    using that ans reg' unfolding others_def registry_ok_def dom_def by blast
  have get: "gm_get (bt_peers b) k = (if k = ?n
      then Some \<lparr>pi_PeerId = k, pi_Address = pn_Address p, pi_LastSeen = Unix now\<rparr> else gm_get (bt_peers (nw_boot w)) k)" for k
    using ans by (simp add: registration_def)
  show ?thesis
  proof (rule net_inv_update [OF inv i _ _ refl])
    show "known y \<subseteq> known ?x \<union> {(k, a). member w k a}" using learn(2) self told by blast
    show "\<forall>t \<in> targets y. earlier (reg_ids (nw_log w @ [registration p])) t (proc_id ?x)"
      using learn(1) told new earlier_last [of _ "reg_ids (nw_log w)" ?n] by (auto simp: registration_def)
    show "finite (targets y)" using learn(1) finite_subset by blast
    have "card (targets y) \<le> card (pi_PeerId ` set (rgs_Peers resp))" by (rule card_mono [OF _ learn(1)]) simp
    also have "\<dots> \<le> length (rgs_Peers resp)" by (metis card_length list.set_map length_map)
    also have "\<dots> \<le> 3" using ans by simp
    finally show "card (targets y) \<le> 3" .
    show "dom (gm_get (bt_peers b)) = set (reg_ids (nw_log w @ [registration p]))"
      using reg' get by (auto simp: registry_ok_def dom_def registration_def split: if_splits)
    show "\<forall>k info. gm_get (bt_peers b) k = Some info \<longrightarrow> member w k (pi_Address info)"
      using reg' get self by (auto simp: registry_ok_def)
    show "distinct (reg_ids (nw_log w @ [registration p]))" using reg' new by (simp add: registry_ok_def registration_def)
  qed (use y ans in \<open>simp_all add: registration_def\<close>)
qed

text \<open>What the main goroutine does depends on the server only in its first phase.\<close>

lemma main_step_register_irrelevant:
  "pc \<noteq> Created \<Longrightarrow> main_step (inp\<lparr>mi_register := f\<rparr>) pc (p, ts) = main_step inp pc (p, ts)"
  by (cases pc) simp_all

lemma main_step_same_answer:
  "(\<And>conn. f conn (registration p) = mi_register inp conn (registration p))
   \<Longrightarrow> main_step (inp\<lparr>mi_register := f\<rparr>) Created (p, ts) = main_step inp Created (p, ts)"
proof -
  assume "\<And>conn. f conn (registration p) = mi_register inp conn (registration p)"
  then have "RegisterWithBootstrap now dial f p = RegisterWithBootstrap now dial (mi_register inp) p" for now dial
    by (cases "dial (pn_BootstrapAddr p)") (simp_all add: RegisterWithBootstrap_def registration_def)
  then show ?thesis by simp
qed

lemma main_run_later_phase:
  assumes "main_run (pc, (p, ts), out)" and "pc \<noteq> Created" and "main_step inp pc (p, ts) = Some (pc', s', line)"
  shows "main_run (pc', s', out @ line)"
proof (rule main_run.main_goroutine [OF assms(1)])
  show "no_sentinel (inp\<lparr>mi_register := \<lambda>_ _. Inl []\<rparr>)" by (simp add: no_sentinel_def)
  show "main_step (inp\<lparr>mi_register := \<lambda>_ _. Inl []\<rparr>) pc (p, ts) = Some (pc', s', line)"
    unfolding main_step_register_irrelevant [OF assms(2)] by (rule assms(3))
qed

lemma main_run_unanswered:
  assumes "main_run (Created, (p, ts), out)" and "unanswered inp p" and "main_step inp Created (p, ts) = Some (pc', s', line)"
  shows "main_run (pc', s', out @ line)"
proof (rule main_run.main_goroutine [OF assms(1)])
  let ?f = "\<lambda>conn req. if req = registration p then mi_register inp conn req else Inl []"
  show "no_sentinel (inp\<lparr>mi_register := ?f\<rparr>)" using assms(2) by (simp add: no_sentinel_def unanswered_def)
  show "main_step (inp\<lparr>mi_register := ?f\<rparr>) Created (p, ts) = Some (pc', s', line)"
    using assms(3) by (subst main_step_same_answer) simp_all
qed

lemma no_member_sentinel: "net_inv w \<Longrightarrow> member w k a \<Longrightarrow> k \<noteq> -1"
proof -
  assume inv: "net_inv w" and "member w k a"
  then obtain i pc p ts out where i: "nw_procs w i = Some (pc, (p, ts), out)" "pn_ID p = k"
    by (auto simp: member_def ran_def)
  have "main_inv (pc, (p, ts), out)" using proc_of [OF inv i(1)] main_run_inv unfolding proc_ok_def by blast
  then have "peer_run (p, ts)" by (simp add: main_inv_def)
  then show "k \<noteq> -1" using i(2) peer_run_inv by (fastforce simp: peer_inv_def)
qed

lemma registry_members: "net_inv w \<Longrightarrow> k \<in> set (reg_ids (nw_log w)) \<Longrightarrow> \<exists>a. member w k a"
  unfolding net_inv_def registry_ok_def by (metis domD)

lemma net_inv_launch:
  assumes inv: "net_inv w" and i: "nw_procs w i = None" and "close_float fl"
    and st: "main_start fl n port addr fs listen = Return (pc, s)" and "(word_of_int n :: i32) \<noteq> -1"
    and new: "\<forall>x \<in> ran (nw_procs w). proc_id x \<noteq> word_of_int n"
  shows "net_inv (set_proc i (pc, s, []) w)"
proof -
  let ?y = "(pc, s, []) :: 'a process" and ?w = "set_proc i (pc, s, []) w"
  obtain p :: "'a peer_node" where p: "NewPeerNode fl (word_of_int n) port addr fs = Return p" "pc = Created" "s = (p, [])"
    using st by (auto simp: main_start_def outcome_elims split: option.splits)
  note peer = NewPeerNode_Return [OF p(1)]
  have mem: "member ?w k a" if "member w k a" for k a
    by (rule member_update [OF that]) (simp_all add: i)
  have "proc_id ?y \<notin> set (reg_ids (nw_log w))"
  proof
    assume "proc_id ?y \<in> set (reg_ids (nw_log w))"
    then obtain a where "member w (proc_id ?y) a" using registry_members [OF inv] by blast
    then show False using new peer(1) p(3) by (auto simp: member_def)
  qed
  moreover have "main_run ?y" by (rule main_run.started [OF assms(3) st assms(5)])
  moreover have "targets ?y = {}" "known ?y = {}"
    using peer(2) p by (auto simp: targets_def known_def overlay_simps)
  ultimately have "proc_ok ?w ?y" by (simp add: proc_ok_def p(3))
  moreover have "proc_ok ?w x" if "nw_procs w j = Some x" for j x
    using proc_of [OF inv that] mem by (auto simp: proc_ok_def)
  ultimately have "\<forall>x \<in> ran (nw_procs ?w). proc_ok ?w x" by (auto simp: ran_def)
  moreover have "proc_id x \<noteq> proc_id ?y" if "nw_procs w j = Some x" for j x
  proof -
    have "proc_id x \<noteq> word_of_int n" using new ranI [of "nw_procs w" j x] that by blast
    then show ?thesis using peer(1) p(3) by simp
  qed
  then have "\<forall>j k u z. nw_procs ?w j = Some u \<longrightarrow> nw_procs ?w k = Some z \<longrightarrow> proc_id u = proc_id z \<longrightarrow> j = k"
    using inv unfolding net_inv_def set_proc_simps by (metis fun_upd_apply option.inject)
  moreover have "registry_ok ?w" using inv mem by (simp add: net_inv_def registry_ok_def)
  ultimately show ?thesis unfolding net_inv_def by blast
qed

lemma net_run_inv: "net_run w \<Longrightarrow> net_inv w"
proof (induction rule: net_run.induct)
  case (started listen b line)
  then have "b = NewBootstrapServer" by (auto simp: bootstrap_start_def Let_def split: option.splits)
  then show ?case using bt_wf_New by (auto simp: net_inv_def registry_ok_def NewBootstrapServer_def gm_simps)
next
  case (server_died w e)
  then show ?case by (simp add: net_inv_def registry_ok_def proc_ok_def member_def case_prod_unfold)
next
  case launched
  then show ?case by (intro net_inv_launch)
next
  case (registered w i p ts out now cs sh b resp inp conn pc' s' line)
  have x: "main_run (Created, (p, ts), out)" using proc_of [OF registered.IH registered(3)] by (simp add: proc_ok_def)
  note fresh = created_process [OF registered.IH registered(3)]
  have reg: "registry_ok w" using registered.IH by (simp add: net_inv_def)
  then have wf: "bt_wf (nw_boot w)" by (simp add: registry_ok_def)
  note ans = register_answers_others [OF wf registered(4)]
  note step = registration_answered [OF registered(7,5,6)]
  have "pi_PeerId info \<noteq> -1" if "info \<in> set (rgs_Peers resp)" for info
  proof -
    have "member w (pi_PeerId info) (pi_Address info)" using that ans reg unfolding others_def registry_ok_def by blast
    then show ?thesis by (rule no_member_sentinel [OF registered.IH])
  qed
  then have "no_sentinel inp" by (simp add: no_sentinel_def registered(5))
  from main_run.main_goroutine [OF x this registered(7)] have run: "main_run (pc', s', out @ line)" .
  show ?case
    by (rule registered_step [OF registered.IH registered(3,4) run])
      (use step ans fresh in \<open>auto simp: targets_def known_def overlay_simps split: if_splits\<close>)
next
  case (answer_lost w i p ts out now cs sh b resp inp pc' s' line)
  have x: "main_run (Created, (p, ts), out)" using proc_of [OF answer_lost.IH answer_lost(3)] by (simp add: proc_ok_def)
  note fresh = created_process [OF answer_lost.IH answer_lost(3)]
  note step = registration_unanswered [OF answer_lost(6,5)]
  have run: "main_run (pc', s', out @ line)" by (rule main_run_unanswered [OF x answer_lost(5,6)])
  show ?case
    by (rule registered_step [OF answer_lost.IH answer_lost(3,4) run])
      (use step fresh in \<open>auto simp: targets_def known_def\<close>)
next
  case (unreached w i p ts out inp pc' s' line)
  have x: "main_run (Created, (p, ts), out)" using proc_of [OF unreached.IH unreached(2)] by (simp add: proc_ok_def)
  note step = registration_unanswered [OF unreached(4,3)]
  have run: "main_run (pc', s', out @ line)" by (rule main_run_unanswered [OF x unreached(3,4)])
  show ?case
    by (rule net_inv_silent [OF unreached.IH unreached(2) _ run]) (use step in \<open>auto intro: learns_nothingI\<close>)
next
  case (main_goroutine w i pc s out inp pc' s' line)
  obtain p ts where s: "s = (p, ts)" by (cases s)
  have x: "main_run (pc, (p, ts), out)" using proc_of [OF main_goroutine.IH main_goroutine(2)] by (simp add: proc_ok_def s)
  note step = main_step_learns_nothing [OF main_goroutine(4) [unfolded s] main_goroutine(3)]
  show ?case
    using net_inv_silent [OF main_goroutine.IH main_goroutine(2) [unfolded s] step(1)]
      main_run_later_phase [OF x main_goroutine(3) main_goroutine(4) [unfolded s]] step(2) by simp
next
  case (background w i x y)
  have "main_run x" using proc_of [OF background.IH background(2)] by (simp add: proc_ok_def)
  then show ?case
    using net_inv_silent [OF background.IH background(2) background_learns_nothing [OF background(3)]]
      main_run_background [OF background(3)] background_not_Created [OF background(3)] by blast
next
  case (notified w i pc p ts out j y req now p' resp)
  let ?out = "out @ NotifyNewPeer_output req p"
  have ok: "proc_ok w (pc, (p, ts), out)" by (rule proc_of [OF notified.IH notified(2)])
  then have "main_run (pc, (p, ts), out)" by (simp add: proc_ok_def)
  moreover have j: "member w (npn_PeerId req) (npn_Address req)"
    unfolding member_def by (metis notified(4-6) ranI)
  moreover note no_member_sentinel [OF notified.IH j]
  ultimately have run: "main_run (pc, (p', ts), ?out)" using main_run.notified notified(3,7) by blast
  have p': "p' = p\<lparr>pn_Graph := AddNode now (npn_PeerId req) (npn_Address req) (pn_Graph p)\<rparr>"
    using notified(7) by (simp add: NotifyNewPeer_def)
  have same: "targets (pc, (p', ts), ?out) = targets (pc, (p, ts), out)" by (simp add: targets_def p' overlay_simps)
  have "known (pc, (p', ts), ?out) \<subseteq> insert (npn_PeerId req, npn_Address req) (known (pc, (p, ts), out))"
    by (auto simp: known_def p' overlay_simps split: if_splits)
  then have knows: "known (pc, (p', ts), ?out) \<subseteq> known (pc, (p, ts), out) \<union> {(k, a). member w k a}" using j by blast
  have reg: "registry_ok w" using notified.IH by (simp add: net_inv_def)
  show ?case
    by (rule net_inv_update [OF notified.IH notified(2) _ _ _ _ run knows, where l = "[]" and b = "nw_boot w"])
      (use ok reg same p' in \<open>auto simp: proc_ok_def registry_ok_def set_proc_def\<close>)
qed

end
