(* ===== verification/Network_Results.thy ===== *)
theory Network_Results
  imports Network_System
begin

text \<open>
  What holds in every network: each process runs as the single program does, with the
  assumptions on its environment now proved; what the peers know about each other is true;
  and the links of the overlay always lead to peers that registered earlier, so that of two
  peers at most one can find a route to the other.
\<close>

section \<open>A sample network\<close>







section \<open>Results\<close>











end
