(* ===== verification/Peer_Output.thy ===== *)
theory Peer_Output
  imports Network_Results "HOL-Library.Sublist"
begin

text \<open>
  What a peer program prints. Its standard output (the third part of a state of \<open>main_run\<close>) is
  compared with what the peer did: every link it records is announced by a line with the
  measured latency, and a program that shuts down has printed its last line and forgotten its
  connections.
\<close>

section \<open>Links and lines\<close>









section \<open>Results\<close>



end
