(* ===== verification/Router_Threads.thy ===== *)
theory Router_Threads
  imports Network_Graph Router
begin

text \<open>
  Concurrent route requests. A request is not atomic: it looks into the cache, takes a snapshot of
  the nodes and then one of the edges (each under the read lock of the graph), searches without
  any lock, and stores the route. Between these steps other requests run, the graph
  changes and the cache is invalidated. The steps of all requests are interleaved in any way.
\<close>

section \<open>Requests and their steps\<close>

datatype route_call =
    Requested i32 i32
  | Missed i32 i32
  | Listed i32 i32 "graph_node list"
  | Searching i32 i32 graph
  | Storing route
  | Replied i32 i32 "(error, route) outcome"

text \<open>What the runtime chooses during one step: the clock, the order of a map, those of the search.\<close>

record route_input =
  ri_now :: int
  ri_choices :: choices
  ri_order :: "nat \<Rightarrow> choices"

fun route_step :: "route_input \<Rightarrow> route_call \<Rightarrow> network_graph \<times> dijkstra_router \<Rightarrow> (route_call \<times> dijkstra_router) option" where
  "route_step inp (Requested fromID toID) (g, dr) =
     (if fromID = toID then
        Some (Replied fromID toID (Return \<lparr>FromPeerID = fromID, ToPeerID = toID, Path = [fromID],
                TotalLatency = 0, Hops = 0, CreatedAt = ri_now inp\<rparr>), dr)
      else case cache_Get (ri_now inp) fromID toID (dr_cache dr) of
        Some cached \<Rightarrow> Some (Replied fromID toID (Return cached), dr)
      | None \<Rightarrow> Some (Missed fromID toID, dr))"
| "route_step inp (Missed fromID toID) (g, dr) = Some (Listed fromID toID (peer_GetNodeList (ri_choices inp) g), dr)"
| "route_step inp (Listed fromID toID nodes) (g, dr) =
     Some (Searching fromID toID \<lparr>GetNodeList = nodes, GetEdgeList = peer_GetEdgeList (ri_choices inp) g\<rparr>, dr)"
| "route_step inp (Searching fromID toID h) (g, dr) =
     (case dijkstra (ri_order inp) h fromID toID of
        None \<Rightarrow> None
      | Some (Fail e) \<Rightarrow> Some (Replied fromID toID (Fail e), dr)
      | Some (Panic p) \<Rightarrow> Some (Replied fromID toID (Panic p), dr)
      | Some (Return (path, latency)) \<Rightarrow>
          Some (Storing \<lparr>FromPeerID = fromID, ToPeerID = toID, Path = path, TotalLatency = latency,
                  Hops = word_of_int (int (length path) - 1), CreatedAt = ri_now inp\<rparr>, dr))"
| "route_step inp (Storing r) (g, dr) =
     Some (Replied (FromPeerID r) (ToPeerID r) (Return r), dr\<lparr>dr_cache := cache_Set (ri_now inp) r (dr_cache dr)\<rparr>)"
| "route_step inp c (g, dr) = Some (c, dr)"

text \<open>
  A graph in the reach of the search: well-formed, without the sentinel peer, latencies
  between 0 and \<open>M\<close>, and small enough for \<open>int64\<close>.
\<close>

definition moderate :: "int \<Rightarrow> network_graph \<Rightarrow> bool" where
  "moderate M g \<longleftrightarrow> ng_wf g \<and> node_map g (-1) = None \<and> (\<forall>ft l. edge_map g ft = Some l \<longrightarrow> 0 \<le> l \<and> l \<le> M)
     \<and> 0 \<le> M \<and> M * int (card (dom (node_map g))) < inf64"

text \<open>
  \<open>router_calls M (gs, dr, cs)\<close>: the graph has gone through the states \<open>gs\<close>, the latest first, the
  router is \<open>dr\<close>, and the requests so far, answered or not, are \<open>cs\<close>.
\<close>

inductive router_calls :: "int \<Rightarrow> network_graph list \<times> dijkstra_router \<times> route_call list \<Rightarrow> bool" for M where
  new_router: "moderate M g \<Longrightarrow> router_calls M ([g], NewDijkstraRouter, [])"
| graph_changed: "router_calls M (gs, dr, cs) \<Longrightarrow> moderate M g \<Longrightarrow> router_calls M (g # gs, dr, cs)"
| requested: "router_calls M (gs, dr, cs) \<Longrightarrow> router_calls M (gs, dr, cs @ [Requested f t])"
| stepped: "router_calls M (gs, dr, cs) \<Longrightarrow> i < length cs \<Longrightarrow> route_step inp (cs ! i) (hd gs, dr) = Some (c', dr')
    \<Longrightarrow> router_calls M (gs, dr', cs[i := c'])"
| invalidated: "router_calls M (gs, dr, cs) \<Longrightarrow> router_calls M (gs, fst (InvalidateCache dr), cs)"
| peer_invalidated: "router_calls M (gs, dr, cs) \<Longrightarrow> router_calls M (gs, fst (InvalidatePeerRoutes ch p dr), cs)"

section \<open>Snapshots\<close>






section \<open>Every interleaving\<close>







section \<open>A request on its own\<close>

fun run_route :: "route_input list \<Rightarrow> route_call \<Rightarrow> network_graph \<times> dijkstra_router \<Rightarrow> (route_call \<times> dijkstra_router) option" where
  "run_route [] c (g, dr) = Some (c, dr)"
| "run_route (inp # inps) c (g, dr) =
     (case route_step inp c (g, dr) of None \<Rightarrow> None | Some (c', dr') \<Rightarrow> run_route inps c' (g, dr'))"


text \<open>A request may also be stepped without interruption for a while.\<close>

lemma router_calls_alone:
  "router_calls M (gs, dr, cs @ [c]) \<Longrightarrow> run_route inps c (hd gs, dr) = Some (c', dr') \<Longrightarrow> router_calls M (gs, dr', cs @ [c'])"
proof (induction inps arbitrary: c dr)
  case (Cons inp inps)
  then obtain c1 dr1 where st: "route_step inp c (hd gs, dr) = Some (c1, dr1)" "run_route inps c1 (hd gs, dr1) = Some (c', dr')"
    by (auto split: option.splits)
  have "router_calls M (gs, dr1, (cs @ [c])[length cs := c1])"
    by (rule router_calls.stepped [OF Cons.prems(1), of "length cs" inp]) (simp_all add: st)
  then show ?case using Cons.IH st(2) by simp
qed simp

text \<open>Two linked peers; a request finds their link of 12 ms, then the link is measured again.\<close>

definition sample_link :: "int \<Rightarrow> network_graph" where
  "sample_link l = AddEdge 1 2 l (AddNode 0 2 ''b'' (AddNode 0 1 ''a'' NewNetworkGraph))"

lemma sample_link_moderate: "0 \<le> l \<Longrightarrow> l \<le> 60000 \<Longrightarrow> moderate 60000 (sample_link l)"
proof -
  assume l: "0 \<le> l" "l \<le> 60000"
  have "dom (node_map (sample_link l)) = {1, 2}"
    by (auto simp: sample_link_def overlay_simps split: if_splits)
  moreover have "ng_wf (sample_link l)" by (simp add: sample_link_def)
  moreover have "edge_map (sample_link l) = [(1, 2) \<mapsto> l]" by (simp add: sample_link_def overlay_simps)
  moreover have "node_map (sample_link l) (-1) = None" by (simp add: sample_link_def overlay_simps)
  ultimately show ?thesis
    using l by (auto simp: moderate_def inf64_def max_int64_def split: if_splits)
qed

definition sample_tick :: route_input where
  "sample_tick = \<lparr>ri_now = 0, ri_choices = [], ri_order = (\<lambda>_. [])\<rparr>"

definition sample_stored :: route where
  "sample_stored = \<lparr>FromPeerID = 1, ToPeerID = 2, Path = [1, 2], TotalLatency = 12, Hops = 1, CreatedAt = 0\<rparr>"

lemma sample_storing: "router_calls 60000 ([sample_link 5, sample_link 12], NewDijkstraRouter, [Storing sample_stored])"
proof -
  have d: "dijkstra (\<lambda>_. []) \<lparr>GetNodeList = peer_GetNodeList [] (sample_link 12), GetEdgeList = peer_GetEdgeList [] (sample_link 12)\<rparr> 1 2
      = Some (Return ([1, 2], 12))" by code_simp
  have "router_calls 60000 ([sample_link 12], NewDijkstraRouter, [] @ [Requested 1 2])"
    by (intro router_calls.requested router_calls.new_router sample_link_moderate) simp_all
  from router_calls_alone [OF this, of "replicate 4 sample_tick"]
  have "router_calls 60000 ([sample_link 12], NewDijkstraRouter, [Storing sample_stored])"
    using d by (simp add: numeral_eq_Suc sample_tick_def sample_stored_def NewDijkstraRouter_def)
  from router_calls.graph_changed [OF this sample_link_moderate [of 5]] show ?thesis by simp
qed

section \<open>Results\<close>




text \<open>
  C25: Invalidating the cache does not reach requests in progress. If the cache is invalidated
  while a request is about to store its route, the route enters the cache afterwards, however
  old the graph it was computed on, and the next request within the time-to-live gets it.
\<close>

theorem invalidation_race:
  assumes "router_calls M (gs, dr, cs)" and "i < length cs" and "cs ! i = Storing r"
    and "FromPeerID r \<noteq> ToPeerID r" and "ri_now later \<le> ri_now inp + rc_ttl (dr_cache dr)"
  shows "cache_Size (dr_cache (fst (InvalidateCache dr))) = 0
    \<and> (\<exists>dr' c. route_step inp (cs ! i) (hd gs, fst (InvalidateCache dr)) = Some (c, dr')
         \<and> router_calls M (gs, dr', cs[i := c])
         \<and> route_step later (Requested (FromPeerID r) (ToPeerID r)) (hd gs, dr')
             = Some (Replied (FromPeerID r) (ToPeerID r) (Return r), dr'))"
proof -
  let ?dr = "fst (InvalidateCache dr)"
  let ?dr' = "?dr\<lparr>dr_cache := cache_Set (ri_now inp) r (dr_cache ?dr)\<rparr>"
  have st: "route_step inp (cs ! i) (hd gs, ?dr) = Some (Replied (FromPeerID r) (ToPeerID r) (Return r), ?dr')"
    by (simp add: assms(3))
  have "router_calls M (gs, ?dr', cs[i := Replied (FromPeerID r) (ToPeerID r) (Return r)])"
    by (rule router_calls.stepped [OF router_calls.invalidated [OF assms(1)] assms(2) st])
  moreover have "cache_Get (ri_now later) (FromPeerID r) (ToPeerID r) (dr_cache ?dr') = Some r"
    using assms(5) by (simp add: cache_Get_Set) (simp add: cache_Invalidate_def)
  moreover have "cache_Size (dr_cache ?dr) = 0" by (simp add: cache_Size_def cache_Invalidate_def)
  ultimately show ?thesis using st assms(4) by simp
qed

theorem invalidation_race_witness:
  "\<exists>dr. router_calls 60000 ([sample_link 5, sample_link 12], dr, [Replied 1 2 (Return sample_stored)])
    \<and> route_step sample_tick (Requested 1 2) (sample_link 5, dr) = Some (Replied 1 2 (Return sample_stored), dr)
    \<and> TotalLatency sample_stored = 12 \<and> edge_map (sample_link 5) (1, 2) = Some 5"
proof -
  have e: "FromPeerID sample_stored = 1" "ToPeerID sample_stored = 2" "TotalLatency sample_stored = 12"
    by (simp_all add: sample_stored_def)
  obtain dr' c where r: "route_step sample_tick (Storing sample_stored) (sample_link 5, fst (InvalidateCache NewDijkstraRouter)) = Some (c, dr')"
    "router_calls 60000 ([sample_link 5, sample_link 12], dr', [c])"
    "route_step sample_tick (Requested 1 2) (sample_link 5, dr') = Some (Replied 1 2 (Return sample_stored), dr')"
    using invalidation_race [OF sample_storing, of 0 sample_stored sample_tick sample_tick]
    by (auto simp: e NewDijkstraRouter_def NewRouteCache_def)
  have "c = Replied 1 2 (Return sample_stored)" using r(1) by (simp add: e)
  then show ?thesis using r(2,3) e by (auto simp: sample_link_def overlay_simps)
qed

end
