(* ===== verification/Storage_Threads.thy ===== *)
theory Storage_Threads
  imports Storage_Results
begin

text \<open>
  Concurrent calls on one storage manager. gRPC serves every request on its own goroutine and
  the manager itself has no lock: only the chunk store and the filter lock, each for one
  operation. Between the operations of a call those of others run. Here every call is split
  into its critical sections; the steps of all calls are interleaved in any way, and the disk
  may change at any time.
\<close>

section \<open>Calls and their steps\<close>

text \<open>
  A call by what it has left to do. The arguments are those of \<open>UploadFile\<close> (with the identifier
  it draws), of \<open>ReceiveChunk\<close>, and of the handler \<open>HasChunk\<close>; a finished call has its result.
\<close>

datatype storage_call =
    Uploading string string bytes
  | Upload_Adding string file_metadata "chunk list"
  | Upload_Done string "(error, file_metadata) outcome"
  | Receiving string i32 bytes string
  | Receive_Persisting string i32 bytes
  | Receive_Adding string i32
  | Receive_Done string i32 "(error, unit) outcome"
  | Asking string i32
  | Confirming string i32
  | Answered string i32 "(error, bool \<times> bool) outcome"

definition rejected_error :: "storage_manager \<Rightarrow> string \<Rightarrow> i32 \<Rightarrow> error \<Rightarrow> error" where
  "rejected_error sm f i e =
     ''[Peer-'' @ fmt_d (sint (sm_peerID sm)) @ ''] REJECTED chunk '' @ fmt_d (sint i) @ '' of '' @ f @ '': '' @ e"

fun call_step :: "storage_call \<Rightarrow> storage_manager \<times> file_system \<Rightarrow> storage_call \<times> storage_manager \<times> file_system" where
  "call_step (Uploading f name d) (sm, fs) =
     (case SplitFile f name d (sm_Store sm) fs of
        ((cs', fs'), Fail e) \<Rightarrow> (Upload_Done f (Fail e), sm\<lparr>sm_Store := cs'\<rparr>, fs')
      | ((cs', fs'), Panic p) \<Rightarrow> (Upload_Done f (Panic p), sm\<lparr>sm_Store := cs'\<rparr>, fs')
      | ((cs', fs'), Return (metadata, chunks)) \<Rightarrow> (Upload_Adding f metadata chunks, sm\<lparr>sm_Store := cs'\<rparr>, fs'))"
| "call_step (Upload_Adding f metadata []) (sm, fs) =
     (Upload_Done f (bind_outcome (slice_prefix (fm_RootHash metadata) 16) (\<lambda>_. Return metadata)), sm, fs)"
| "call_step (Upload_Adding f metadata (c # cs)) (sm, fs) =
     (case Add (sm_Bloom sm) (ChunkKey (ch_FileID c) (ch_Index c)) of
        Return bf \<Rightarrow> (Upload_Adding f metadata cs, sm\<lparr>sm_Bloom := bf\<rparr>, fs)
      | Fail e \<Rightarrow> (Upload_Done f (Fail e), sm, fs)
      | Panic p \<Rightarrow> (Upload_Done f (Panic p), sm, fs))"
| "call_step (Receiving f i d h) (sm, fs) =
     (case VerifyChunk d h of
        Some e \<Rightarrow> (Receive_Done f i (Fail (rejected_error sm f i (''chunk verification failed: '' @ e))), sm, fs)
      | None \<Rightarrow>
          (Receive_Persisting f i d,
           sm\<lparr>sm_Store := sm_Store sm\<lparr>cs_chunks := gm_set (chunkStoreKey f i) d (cs_chunks (sm_Store sm))\<rparr>\<rparr>, fs))"
| "call_step (Receive_Persisting f i d) (sm, fs) =
     (case persistChunk (sm_Store sm) f i d fs of
        (fs', Some e) \<Rightarrow> (Receive_Done f i (Fail (rejected_error sm f i e)), sm, fs')
      | (fs', None) \<Rightarrow> (Receive_Adding f i, sm, fs'))"
| "call_step (Receive_Adding f i) (sm, fs) =
     (case Add (sm_Bloom sm) (ChunkKey f i) of
        Return bf \<Rightarrow> (Receive_Done f i (Return ()), sm\<lparr>sm_Bloom := bf\<rparr>, fs)
      | Fail e \<Rightarrow> (Receive_Done f i (Fail e), sm, fs)
      | Panic p \<Rightarrow> (Receive_Done f i (Panic p), sm, fs))"
| "call_step (Asking f i) (sm, fs) =
     (case MightHaveChunk sm f i of
        Return mightHave \<Rightarrow> (if mightHave then Confirming f i else Answered f i (Return (False, False)), sm, fs)
      | Fail e \<Rightarrow> (Answered f i (Fail e), sm, fs)
      | Panic p \<Rightarrow> (Answered f i (Panic p), sm, fs))"
| "call_step (Confirming f i) (sm, fs) = (Answered f i (Return (True, ConfirmHasChunk sm f i)), sm, fs)"
| "call_step c s = (c, s)"

fun new_call :: "storage_call \<Rightarrow> bool" where
  "new_call (Uploading f name d) = True"
| "new_call (Receiving f i d h) = True"
| "new_call (Asking f i) = True"
| "new_call c = False"

fun call_done :: "storage_call \<Rightarrow> bool" where
  "call_done (Upload_Done f r) = True"
| "call_done (Receive_Done f i r) = True"
| "call_done (Answered f i r) = True"
| "call_done c = False"

text \<open>
  \<open>calls_run (sm, fs, cs)\<close>: a state of a manager over a disk with the calls made so far, finished or
  not. A new call may be made at any time.
\<close>

inductive calls_run :: "storage_manager \<times> file_system \<times> storage_call list \<Rightarrow> bool" where
  created: "close_float fl \<Longrightarrow> NewStorageManager fl p base fs = Return sm \<Longrightarrow> calls_run (sm, fs, [])"
| called: "calls_run (sm, fs, cs) \<Longrightarrow> new_call c \<Longrightarrow> calls_run (sm, fs, cs @ [c])"
| stepped: "calls_run (sm, fs, cs) \<Longrightarrow> i < length cs \<Longrightarrow> call_step (cs ! i) (sm, fs) = (c', sm', fs')
    \<Longrightarrow> calls_run (sm', fs', cs[i := c'])"
| disk_changed: "calls_run (sm, fs, cs) \<Longrightarrow> calls_run (sm, fs', cs)"

section \<open>Splitting, write errors included\<close>

text \<open>What the loop of \<open>SplitFile\<close> leaves in memory when it ends without error, and in any case.\<close>

lemma split_loop_Inr:
  assumes "split_loop f d is cs fs chunks hashes = ((cs', fs'), Inr (chunks', hashes'))"
  shows "cs_chunks cs' = put_chunks f d is (cs_chunks cs) \<and> chunks' = chunks @ map (split_chunk f d) is"
  using assms
proof (induction "is" arbitrary: cs fs chunks hashes)
  case (Cons i "is")
  let ?cs = "cs\<lparr>cs_chunks := gm_set (chunkStoreKey f (word_of_nat i)) (ch_Data (split_chunk f d i)) (cs_chunks cs)\<rparr>"
  obtain fs1 where "split_loop f d is ?cs fs1 (chunks @ [split_chunk f d i]) (hashes @ [ch_Hash (split_chunk f d i)])
      = ((cs', fs'), Inr (chunks', hashes'))"
    using Cons.prems by (auto simp: Let_def split: prod.splits option.splits)
  from Cons.IH [OF this] show ?case by (simp add: put_chunks_def)
qed (simp add: put_chunks_def)

lemma split_loop_any:
  assumes "split_loop f d is cs fs chunks hashes = ((cs', fs'), r)"
  shows "(store_HasChunk cs g j \<longrightarrow> store_HasChunk cs' g j)
    \<and> (store_HasChunk cs' g j \<longrightarrow> store_HasChunk cs g j \<or> g = f)"
  using assms
proof (induction "is" arbitrary: cs fs chunks hashes)
  case (Cons i "is")
  let ?cs = "cs\<lparr>cs_chunks := gm_set (chunkStoreKey f (word_of_nat i)) (ch_Data (split_chunk f d i)) (cs_chunks cs)\<rparr>"
  have "store_HasChunk ?cs g j \<longleftrightarrow> store_HasChunk cs g j \<or> (g = f \<and> j = word_of_nat i)"
    by (auto simp: store_HasChunk_def gm_simps chunkStoreKey_inject)
  then show ?case using Cons by (auto simp: Let_def split: prod.splits option.splits)
qed simp

lemma SplitFile_any:
  assumes "SplitFile f name d cs fs = ((cs', fs'), r)"
  shows "(store_HasChunk cs g j \<longrightarrow> store_HasChunk cs' g j)
    \<and> (store_HasChunk cs' g j \<longrightarrow> store_HasChunk cs g j \<or> g = f)"
proof -
  let ?is = "[0..<nat (sint (num_chunks (int (length d))))]"
  obtain cs1 fs1 x where l: "split_loop f d ?is cs fs [] [] = ((cs1, fs1), x)" by (metis surj_pair)
  then have "cs' = cs \<or> cs_chunks cs' = cs_chunks cs1"
    using assms by (auto simp: SplitFile_def Let_def split: sum.splits if_splits)
  then show ?thesis using split_loop_any [OF l, of g j] by (auto simp: store_HasChunk_def)
qed

lemma int_of_num_chunks: "sint (num_chunks n) < 2147483648"
  using sint_lt [of "num_chunks n"] by simp

lemma SplitFile_Return_chunks:
  assumes "SplitFile f name d cs fs = ((cs', fs'), Return (meta, chunks))"
  defines "n \<equiv> nat (sint (num_chunks (int (length d))))"
  shows "chunks = map (split_chunk f d) [0..<n]" and "nat (sint (fm_TotalChunks meta)) = n"
    and "i < n \<Longrightarrow> store_HasChunk cs' f (word_of_nat i)"
proof -
  obtain cs1 hashes where l: "split_loop f d [0..<n] cs fs [] [] = ((cs1, fs'), Inr (chunks, hashes))"
    "cs_chunks cs' = cs_chunks cs1" "fm_TotalChunks meta = num_chunks (int (length d))"
    using assms by (auto simp: SplitFile_def Let_def split: prod.splits sum.splits if_splits)
  show "chunks = map (split_chunk f d) [0..<n]" using split_loop_Inr [OF l(1)] by simp
  show "nat (sint (fm_TotalChunks meta)) = n" using l(3) by (simp add: n_def)
  have "\<forall>j \<in> set [0..<n]. j < 2147483648" using int_of_num_chunks [of "int (length d)"] by (auto simp: n_def)
  then show "store_HasChunk cs' f (word_of_nat i)" if "i < n"
    using that put_chunks_get [of i "[0..<n]" f d "cs_chunks cs"] split_loop_Inr [OF l(1)] l(2)
    by (simp add: store_HasChunk_def)
qed

section \<open>What a step does\<close>

definition announced :: "storage_manager \<Rightarrow> string \<Rightarrow> i32 \<Rightarrow> bool" where
  "announced sm g j \<longleftrightarrow> MightHaveChunk sm g j = Return True"

text \<open>The chunks a call has put into the store (or may have, if it failed) and not yet into the filter.\<close>

fun owed :: "storage_call \<Rightarrow> string \<Rightarrow> i32 \<Rightarrow> bool" where
  "owed (Upload_Adding f m cs) g j = (\<exists>c \<in> set cs. ch_FileID c = g \<and> ch_Index c = j)"
| "owed (Upload_Done f (Fail e)) g j = (g = f)"
| "owed (Receive_Persisting f i d) g j = (g = f \<and> j = i)"
| "owed (Receive_Adding f i) g j = (g = f \<and> j = i)"
| "owed (Receive_Done f i (Fail e)) g j = (g = f \<and> j = i)"
| "owed _ g j = False"

text \<open>What a call in progress, or its result, says of the manager.\<close>

fun promised :: "storage_call \<Rightarrow> storage_manager \<Rightarrow> bool" where
  "promised (Upload_Adding f m cs) sm =
     (\<forall>i < nat (sint (fm_TotalChunks m)). ConfirmHasChunk sm f (word_of_nat i)
        \<and> (announced sm f (word_of_nat i) \<or> owed (Upload_Adding f m cs) f (word_of_nat i)))"
| "promised (Upload_Done f (Return m)) sm =
     (\<forall>i < nat (sint (fm_TotalChunks m)). ConfirmHasChunk sm f (word_of_nat i) \<and> announced sm f (word_of_nat i))"
| "promised (Receive_Persisting f i d) sm = ConfirmHasChunk sm f i"
| "promised (Receive_Adding f i) sm = ConfirmHasChunk sm f i"
| "promised (Receive_Done f i (Return u)) sm = (ConfirmHasChunk sm f i \<and> announced sm f i)"
| "promised (Answered f i (Return (m, b))) sm = (b \<longrightarrow> ConfirmHasChunk sm f i)"
| "promised _ sm = True"

lemma Add_announced:
  assumes "bloom_wf (sm_Bloom sm)"
  shows "\<exists>bf. Add (sm_Bloom sm) (ChunkKey f i) = Return bf \<and> bloom_wf bf \<and> announced (sm\<lparr>sm_Bloom := bf\<rparr>) f i
    \<and> (\<forall>g j. announced sm g j \<longrightarrow> announced (sm\<lparr>sm_Bloom := bf\<rparr>) g j)"
  using bloom.add_law [OF assms, of "ChunkKey f i"] by (auto simp: announced_def MightHaveChunk_def)

lemma announced_Store [simp]: "announced (sm\<lparr>sm_Store := cs\<rparr>) g j = announced sm g j"
  by (simp add: announced_def MightHaveChunk_def)

lemma Confirm_Bloom [simp]: "ConfirmHasChunk (sm\<lparr>sm_Bloom := bf\<rparr>) g j = ConfirmHasChunk sm g j"
  by (simp add: ConfirmHasChunk_def)

lemma Confirm_put:
  "ConfirmHasChunk (sm\<lparr>sm_Store := sm_Store sm\<lparr>cs_chunks := gm_set (chunkStoreKey f i) d (cs_chunks (sm_Store sm))\<rparr>\<rparr>) g j
   \<longleftrightarrow> ConfirmHasChunk sm g j \<or> (g = f \<and> j = i)"
  by (auto simp: ConfirmHasChunk_def store_HasChunk_def gm_simps chunkStoreKey_inject)

lemma announced_total: "bloom_wf (sm_Bloom sm) \<Longrightarrow> MightHaveChunk sm f i = Return (announced sm f i)"
  using bloom.test_law [of "sm_Bloom sm" "ChunkKey f i"] by (auto simp: announced_def MightHaveChunk_def)

text \<open>A step keeps what is known, forgets no debt, and keeps its own promise.\<close>

definition step_ok :: "storage_call \<Rightarrow> storage_manager \<Rightarrow> storage_call \<Rightarrow> storage_manager \<Rightarrow> bool" where
  "step_ok c sm c' sm' \<longleftrightarrow> bloom_wf (sm_Bloom sm')
     \<and> (\<forall>g j. (announced sm g j \<longrightarrow> announced sm' g j)
          \<and> (ConfirmHasChunk sm g j \<longrightarrow> ConfirmHasChunk sm' g j)
          \<and> (ConfirmHasChunk sm' g j \<longrightarrow> ConfirmHasChunk sm g j \<or> owed c' g j)
          \<and> (owed c g j \<longrightarrow> owed c' g j \<or> announced sm' g j))
     \<and> (promised c sm \<longrightarrow> promised c' sm')"

lemma step_Uploading:
  assumes "call_step (Uploading f name d) (sm, fs) = (c', sm', fs')" and "bloom_wf (sm_Bloom sm)"
  shows "step_ok (Uploading f name d) sm c' sm'"
proof -
  obtain cs1 fs1 r where s: "SplitFile f name d (sm_Store sm) fs = ((cs1, fs1), r)" by (metis surj_pair)
  have any: "store_HasChunk (sm_Store sm) g j \<Longrightarrow> store_HasChunk cs1 g j"
    "store_HasChunk cs1 g j \<Longrightarrow> store_HasChunk (sm_Store sm) g j \<or> g = f" for g j
    using SplitFile_any [OF s, of g j] by blast+
  show ?thesis
  proof (cases r)
    case (Return mc)
    then obtain m chunks where r: "r = Return (m, chunks)" by (metis surj_pair)
    then have e: "c' = Upload_Adding f m chunks" "sm' = sm\<lparr>sm_Store := cs1\<rparr>" using s assms(1) by auto
    have s': "SplitFile f name d (sm_Store sm) fs = ((cs1, fs1), Return (m, chunks))" using s r by simp
    note ret = SplitFile_Return_chunks [OF s']
    have "\<exists>c \<in> set chunks. ch_FileID c = f \<and> ch_Index c = word_of_nat i" if "i < nat (sint (fm_TotalChunks m))" for i
      using that ret(1,2) by (auto intro!: bexI [of _ "split_chunk f d i"])
    then show ?thesis
      using assms(2) any SplitFile_keys [OF s'] ret(2,3)
      by (auto simp: step_ok_def e ConfirmHasChunk_def)
  next
    case (Fail e)
    then show ?thesis using s assms any(1) by (auto simp: step_ok_def ConfirmHasChunk_def dest: any(2))
  next
    case (Panic q)
    then have "cs1 = sm_Store sm" using s SplitFile_Panic by blast
    then show ?thesis using s Panic assms by (auto simp: step_ok_def)
  qed
qed

lemma step_adding:
  assumes "bloom_wf (sm_Bloom sm)"
  shows "call_step (Upload_Adding f m (c # cs)) (sm, fs) = (c', sm', fs') \<Longrightarrow> step_ok (Upload_Adding f m (c # cs)) sm c' sm'"
    and "call_step (Receive_Adding f i) (sm, fs) = (c', sm', fs') \<Longrightarrow> step_ok (Receive_Adding f i) sm c' sm'"
proof -
  obtain bf where bf: "Add (sm_Bloom sm) (ChunkKey (ch_FileID c) (ch_Index c)) = Return bf" "bloom_wf bf"
    "announced (sm\<lparr>sm_Bloom := bf\<rparr>) (ch_FileID c) (ch_Index c)"
    "\<forall>g j. announced sm g j \<longrightarrow> announced (sm\<lparr>sm_Bloom := bf\<rparr>) g j"
    using Add_announced [OF assms, of "ch_FileID c" "ch_Index c"] by blast
  show "call_step (Upload_Adding f m (c # cs)) (sm, fs) = (c', sm', fs') \<Longrightarrow> step_ok (Upload_Adding f m (c # cs)) sm c' sm'"
    using bf by (auto simp: step_ok_def) metis
  obtain bf where bf: "Add (sm_Bloom sm) (ChunkKey f i) = Return bf" "bloom_wf bf" "announced (sm\<lparr>sm_Bloom := bf\<rparr>) f i"
    "\<forall>g j. announced sm g j \<longrightarrow> announced (sm\<lparr>sm_Bloom := bf\<rparr>) g j"
    using Add_announced [OF assms, of f i] by blast
  show "call_step (Receive_Adding f i) (sm, fs) = (c', sm', fs') \<Longrightarrow> step_ok (Receive_Adding f i) sm c' sm'"
    using bf by (auto simp: step_ok_def)
qed

lemma call_step_ok:
  assumes "call_step c (sm, fs) = (c', sm', fs')" and wf: "bloom_wf (sm_Bloom sm)"
  shows "step_ok c sm c' sm'"
proof (cases c)
  case (Uploading f name d)
  then show ?thesis using step_Uploading assms by blast
next
  case (Upload_Adding f m cs)
  then show ?thesis
    using assms step_adding(1) [OF wf]
    by (cases cs) (auto simp: step_ok_def slice_prefix_def)
next
  case (Receiving f i d h)
  then show ?thesis using assms by (auto simp: step_ok_def Confirm_put split: option.splits)
next
  case (Receive_Persisting f i d)
  then show ?thesis using assms by (auto simp: step_ok_def split: prod.splits option.splits)
next
  case (Receive_Adding f i)
  then show ?thesis using assms step_adding(2) by blast
next
  case (Asking f i)
  then show ?thesis using assms announced_total [OF wf, of f i] by (auto simp: step_ok_def)
qed (use assms in \<open>auto simp: step_ok_def\<close>)

lemma promised_mono:
  assumes "promised c sm" and "\<And>g j. announced sm g j \<Longrightarrow> announced sm' g j"
    and "\<And>g j. ConfirmHasChunk sm g j \<Longrightarrow> ConfirmHasChunk sm' g j"
  shows "promised c sm'"
  using assms by (cases "(c, sm)" rule: promised.cases; simp; blast)

section \<open>Every interleaving\<close>

definition calls_inv :: "storage_manager \<times> file_system \<times> storage_call list \<Rightarrow> bool" where
  "calls_inv s \<longleftrightarrow> (case s of (sm, fs, cs) \<Rightarrow> bloom_wf (sm_Bloom sm)
     \<and> (\<forall>g j. ConfirmHasChunk sm g j \<longrightarrow> announced sm g j \<or> (\<exists>c \<in> set cs. owed c g j))
     \<and> (\<forall>c \<in> set cs. promised c sm))"

lemma calls_inv_step:
  assumes "calls_inv (sm, fs, cs)" and i: "i < length cs" and st: "call_step (cs ! i) (sm, fs) = (c', sm', fs')"
  shows "calls_inv (sm', fs', cs[i := c'])"
proof -
  have inv: "bloom_wf (sm_Bloom sm)" "\<And>g j. ConfirmHasChunk sm g j \<Longrightarrow> announced sm g j \<or> (\<exists>c \<in> set cs. owed c g j)"
    "\<And>c. c \<in> set cs \<Longrightarrow> promised c sm"
    using assms(1) by (auto simp: calls_inv_def)
  have ok: "step_ok (cs ! i) sm c' sm'" by (rule call_step_ok [OF st inv(1)])
  have mono: "\<And>g j. announced sm g j \<Longrightarrow> announced sm' g j" "\<And>g j. ConfirmHasChunk sm g j \<Longrightarrow> ConfirmHasChunk sm' g j"
    using ok by (auto simp: step_ok_def)
  have c': "c' \<in> set (cs[i := c'])" using i by (rule set_update_memI)
  have keep: "c \<in> set (cs[i := c'])" if "c \<in> set cs" "c \<noteq> cs ! i" for c
    using that i by (metis in_set_conv_nth length_list_update nth_list_update_neq)
  have "announced sm' g j \<or> (\<exists>c \<in> set (cs[i := c']). owed c g j)" if conf: "ConfirmHasChunk sm' g j" for g j
  proof -
    consider "owed c' g j" | "announced sm g j" | c where "c \<in> set cs" "owed c g j"
      using conf ok inv(2) unfolding step_ok_def by blast
    then show ?thesis
    proof cases
      case (3 c)
      then show ?thesis
        using keep [of c] c' ok unfolding step_ok_def by (cases "c = cs ! i") blast+
    qed (use c' mono in blast)+
  qed
  moreover have "promised c sm'" if "c \<in> set (cs[i := c'])" for c
  proof (cases "c = c'")
    case True
    then show ?thesis using ok inv(3) [OF nth_mem [OF i]] by (simp add: step_ok_def)
  next
    case False
    then have "c \<in> set cs" using that set_update_subset_insert by fastforce
    then show ?thesis using promised_mono [OF inv(3)] mono by blast
  qed
  ultimately show ?thesis using ok by (simp add: calls_inv_def step_ok_def)
qed

lemma new_call_promised: "new_call c \<Longrightarrow> promised c sm"
  by (cases c) auto

lemma calls_run_inv: "calls_run s \<Longrightarrow> calls_inv s"
proof (induction rule: calls_run.induct)
  case (created fl p base fs sm)
  then have "synced sm" using NewStorageManager_Return(1) by blast
  then show ?case by (simp add: calls_inv_def synced_def announced_def)
next
  case (called sm fs cs c)
  then show ?case using new_call_promised by (auto simp: calls_inv_def)
next
  case (stepped sm fs cs i c' sm' fs')
  then show ?case using calls_inv_step by blast
next
  case (disk_changed sm fs cs fs')
  then show ?case by (simp add: calls_inv_def)
qed

section \<open>A call on its own\<close>

text \<open>The critical sections that a call may still enter.\<close>

fun call_work :: "storage_call \<Rightarrow> nat" where
  "call_work (Uploading f name d) = nat (sint (num_chunks (int (length d)))) + 2"
| "call_work (Upload_Adding f m cs) = length cs + 1"
| "call_work (Receiving f i d h) = 3"
| "call_work (Receive_Persisting f i d) = 2"
| "call_work (Receive_Adding f i) = 1"
| "call_work (Asking f i) = 2"
| "call_work (Confirming f i) = 1"
| "call_work c = 0"

lemma call_work_decreases:
  assumes "\<not> call_done c" and "call_step c (sm, fs) = (c', sm', fs')"
  shows "call_work c' < call_work c"
proof (cases c)
  case (Uploading f name d)
  obtain cs1 fs1 r where s: "SplitFile f name d (sm_Store sm) fs = ((cs1, fs1), r)" by (metis surj_pair)
  show ?thesis
  proof (cases r)
    case (Return mc)
    then obtain m chunks where r: "r = Return (m, chunks)" by (metis surj_pair)
    have "c' = Upload_Adding f m chunks" using s r assms(2) Uploading by auto
    moreover have "SplitFile f name d (sm_Store sm) fs = ((cs1, fs1), Return (m, chunks))" using s r by simp
    ultimately show ?thesis using Uploading SplitFile_Return_chunks(1) by fastforce
  qed (use s assms(2) Uploading in auto)
next
  case (Upload_Adding f m cs)
  then show ?thesis using assms(2) by (cases cs) (auto split: outcome.splits)
qed (use assms in \<open>auto split: outcome.splits option.splits prod.splits if_splits\<close>)

text \<open>Running one call to its end with nothing in between.\<close>

function run_call :: "storage_call \<Rightarrow> storage_manager \<times> file_system \<Rightarrow> storage_call \<times> storage_manager \<times> file_system" where
  "run_call c s = (if call_done c then (c, s) else case call_step c s of (c', s') \<Rightarrow> run_call c' s')"
  by pat_completeness auto
termination
proof (relation "measure (\<lambda>(c, s). call_work c)", goal_cases)
  case (2 c s c' s')
  then have "call_step c (fst s, snd s) = (c', fst s', snd s')" by simp
  from call_work_decreases [OF 2(1) this] show ?case by simp
qed simp

declare run_call.simps [simp del]

lemma run_call_done: "call_done c \<Longrightarrow> run_call c s = (c, s)"
  by (simp add: run_call.simps)

lemma run_call_step: "\<not> call_done c \<Longrightarrow> call_step c s = (c', s') \<Longrightarrow> run_call c s = run_call c' s'"
  by (simp add: run_call.simps [of c s])



lemma run_Receiving:
  assumes "bloom_wf (sm_Bloom sm)" and "ReceiveChunk f i d h sm fs = ((sm', fs'), r)"
  shows "run_call (Receiving f i d h) (sm, fs) = (Receive_Done f i r, sm', fs')"
proof (cases "VerifyChunk d h")
  case None
  let ?cs = "sm_Store sm\<lparr>cs_chunks := gm_set (chunkStoreKey f i) d (cs_chunks (sm_Store sm))\<rparr>"
  obtain fs1 e where p: "persistChunk ?cs f i d fs = (fs1, e)" by (metis surj_pair)
  have "run_call (Receiving f i d h) (sm, fs) = run_call (Receive_Persisting f i d) (sm\<lparr>sm_Store := ?cs\<rparr>, fs)"
    by (rule run_call_step) (simp_all add: None)
  then show ?thesis
    using assms(2) None p bloom.add_law [OF assms(1), of "ChunkKey f i"]
    by (cases e) (auto simp: run_call.simps ReceiveChunk_def StoreDownloadedChunk_def rejected_error_def Let_def)
next
  case (Some e)
  then show ?thesis
    using assms(2) by (auto simp: run_call.simps ReceiveChunk_def StoreDownloadedChunk_def rejected_error_def)
qed

lemma run_Asking:
  assumes "bloom_wf (sm_Bloom sm)"
  shows "run_call (Asking f i) (sm, fs)
    = (Answered f i (Return (announced sm f i, announced sm f i \<and> ConfirmHasChunk sm f i)), sm, fs)"
  by (simp add: run_call.simps announced_total [OF assms])

text \<open>A manager just created, with its empty filter.\<close>

lemma fresh_manager:
  assumes "close_float fl" and "NewStorageManager fl p base fs = Return sm"
  shows "bloom_wf (sm_Bloom sm)" and "\<not> announced sm f i" and "cs_baseDir (sm_Store sm) = base"
proof -
  obtain bf where bf: "NewBloomFilter fl 10000 (fl (1 / 100)) = Return bf" "bloom_wf bf" "numHashes bf = 7" "bits_of bf = {}"
    using default_filter [OF assms(1)] by blast
  have sm: "sm_Bloom sm = bf" "cs_baseDir (sm_Store sm) = base"
    using assms(2) bf(1) by (auto simp: NewStorageManager_def NewChunkStore_def split: option.splits)
  then show "bloom_wf (sm_Bloom sm)" "cs_baseDir (sm_Store sm) = base" using bf(2) by simp_all
  show "\<not> announced sm f i"
    using sm(1) bf by (simp add: announced_def MightHaveChunk_def MightContain_wf positions_def upto_rec1)
qed

text \<open>The state in the middle of a first upload.\<close>

lemma upload_window:
  assumes "close_float fl" and "NewStorageManager fl p base fs = Return sm" and "faultless fs" and "base \<noteq> []"
    and "d \<noteq> []" and "int (length d) \<le> max_file"
  shows "\<exists>sm' fs' m chunks. calls_run (sm', fs', [Upload_Adding f m chunks])
    \<and> ConfirmHasChunk sm' f 0 \<and> DownloadChunk sm' fs' f 0 = Return (piece d 0, ComputeHash (piece d 0))
    \<and> MightHaveChunk sm' f 0 = Return False
    \<and> run_call (Asking f 0) (sm', fs') = (Answered f 0 (Return (False, False)), sm', fs')"
proof -
  note fresh = fresh_manager [OF assms(1,2)]
  have base: "cs_baseDir (sm_Store sm) \<noteq> []" using fresh(3) assms(4) by simp
  let ?cs = "put_chunks f d [0..<chunk_count d] (cs_chunks (sm_Store sm))"
  obtain store fs' where s: "SplitFile f name d (sm_Store sm) fs
      = ((store, fs'), Return (split_metadata f name d, map (split_chunk f d) [0..<chunk_count d]))"
    and store: "cs_chunks store = ?cs"
    using SplitFile_faultless [OF assms(3) base assms(6), of f name] by simp
  let ?sm = "sm\<lparr>sm_Store := store\<rparr>"
  have "calls_run (sm, fs, [] @ [Uploading f name d])"
    by (rule calls_run.called [OF calls_run.created [OF assms(1,2)]]) simp
  from calls_run.stepped [OF this, of 0 "Upload_Adding f (split_metadata f name d) (map (split_chunk f d) [0..<chunk_count d])" ?sm fs']
  have "calls_run (?sm, fs', [Upload_Adding f (split_metadata f name d) (map (split_chunk f d) [0..<chunk_count d])])"
    using s by simp
  moreover have "GetChunk (sm_Store ?sm) fs' f 0 = Return (piece d 0)"
    using split_get_chunk [OF assms(6) chunk_count_pos [OF assms(5)], of "sm_Store ?sm" f] store by simp
  moreover have "ConfirmHasChunk ?sm f 0"
    using SplitFile_Return_chunks(3) [OF s, of 0] chunk_count_pos [OF assms(5)] num_chunks_value(2) [OF assms(6)]
    by (simp add: ConfirmHasChunk_def)
  moreover have "MightHaveChunk ?sm f 0 = Return False"
    using announced_total [of ?sm f 0] fresh(1,2) by simp
  moreover have "run_call (Asking f 0) (?sm, fs') = (Answered f 0 (Return (False, False)), ?sm, fs')"
    using run_Asking [of ?sm f 0 fs'] fresh(1,2) by simp
  moreover have "DownloadChunk ?sm fs' f 0 = Return (piece d 0, ComputeHash (piece d 0))"
    using calculation(2) by (simp add: DownloadChunk_def)
  ultimately show ?thesis by blast
qed

text \<open>A call may run to its end without interruption.\<close>

lemma calls_run_alone:
  assumes "calls_run (sm, fs, cs @ [c])" and "run_call c (sm, fs) = (c', sm', fs')"
  shows "calls_run (sm', fs', cs @ [c'])"
  using assms
proof (induction c "(sm, fs)" arbitrary: sm fs rule: run_call.induct)
  case (1 c sm fs)
  show ?case
  proof (cases "call_done c")
    case True
    then show ?thesis using "1.prems" by (simp add: run_call_done)
  next
    case False
    obtain c1 sm1 fs1 where st: "call_step c (sm, fs) = (c1, sm1, fs1)" by (metis surj_pair)
    have "calls_run (sm1, fs1, (cs @ [c])[length cs := c1])"
      by (rule calls_run.stepped [OF "1.prems"(1)]) (simp_all add: st)
    then show ?thesis
      using "1.hyps" [OF False] st "1.prems"(2) run_call_step [OF False st] by simp
  qed
qed

lemma receive_faultless:
  assumes "bloom_wf (sm_Bloom sm)" and "faultless fs" and "cs_baseDir (sm_Store sm) \<noteq> []"
  shows "\<exists>sm' fs'. ReceiveChunk f i d (ComputeHash d) sm fs = ((sm', fs'), Return ())"
proof -
  let ?cs = "sm_Store sm\<lparr>cs_chunks := gm_set (chunkStoreKey f i) d (cs_chunks (sm_Store sm))\<rparr>"
  obtain fs1 where "persistChunk ?cs f i d fs = (fs1, None)"
    using persistChunk_faultless [OF assms(2), of ?cs f i d] assms(3) by simp
  then show ?thesis
    using bloom.add_law [OF assms(1), of "ChunkKey f i"]
    by (auto simp: ReceiveChunk_def StoreDownloadedChunk_def VerifyChunk_def Let_def)
qed

lemma fresh_sample:
  obtains sm where "NewStorageManager (\<lambda>x. x) 1 ''data'' (no_faults []) = Return sm"
  using NewStorageManager_works [OF close_float_id no_faults_faultless] by blast

section \<open>Results\<close>

text \<open>
  C7: The filter and the store agree under concurrency. In every interleaving of uploads,
  received chunks and queries, over a disk that changes and fails at will: a chunk that the
  store confirms is announced by the filter, unless a call that is still between its two
  steps, or one that ended with an error, accounts for it.
\<close>

theorem concurrent_filter_agreement:
  assumes "calls_run (sm, fs, cs)" and "ConfirmHasChunk sm f i" and "MightHaveChunk sm f i \<noteq> Return True"
  shows "\<exists>c \<in> set cs. (\<not> call_done c \<or> (\<exists>e. c = Upload_Done f (Fail e) \<or> c = Receive_Done f i (Fail e))) \<and> owed c f i"
proof -
  obtain c where c: "c \<in> set cs" "owed c f i"
    using calls_run_inv [OF assms(1)] assms(2,3) unfolding calls_inv_def announced_def prod.case by blast
  moreover have "\<not> call_done c \<or> (\<exists>e. c = Upload_Done f (Fail e) \<or> c = Receive_Done f i (Fail e))"
    using c(2) by (cases "(c, f, i)" rule: owed.cases) auto
  ultimately show ?thesis by blast
qed

theorem concurrent_filter_agreement_witness:
  "\<exists>sm fs m chunks. ConfirmHasChunk sm ''f'' 0 \<and> MightHaveChunk sm ''f'' 0 = Return False
    \<and> calls_run (sm, fs, [Upload_Adding ''f'' m chunks]) \<and> owed (Upload_Adding ''f'' m chunks) ''f'' 0"
proof -
  obtain sm where sm: "NewStorageManager (\<lambda>x. x) 1 ''data'' (no_faults []) = Return sm" by (rule fresh_sample)
  obtain sm' fs' m chunks where w: "calls_run (sm', fs', [Upload_Adding ''f'' m chunks])" "ConfirmHasChunk sm' ''f'' 0"
    "MightHaveChunk sm' ''f'' 0 = Return False"
    using upload_window [OF close_float_id sm no_faults_faultless, of "[1]" "''f''"] by (auto simp: max_file_def)
  then have "owed (Upload_Adding ''f'' m chunks) ''f'' 0" using concurrent_filter_agreement [OF w(1,2)] by auto
  then show ?thesis using w by blast
qed

text \<open>
  C8: What a finished call has stored is visible. In every interleaving, once an upload or
  the receipt of a chunk has returned without error, and however much later, a query for
  any chunk of the upload, or for the received chunk, is answered with yes by the filter and
  confirmed by the store.
\<close>

theorem completed_calls_visible:
  assumes "calls_run (sm, fs, cs)"
    and "(Upload_Done f (Return m) \<in> set cs \<and> i = word_of_nat k \<and> k < nat (sint (fm_TotalChunks m)))
      \<or> Receive_Done f i (Return ()) \<in> set cs"
  shows "run_call (Asking f i) (sm, fs) = (Answered f i (Return (True, True)), sm, fs)"
proof -
  have wf: "bloom_wf (sm_Bloom sm)" and promised: "\<And>c. c \<in> set cs \<Longrightarrow> promised c sm"
    using calls_run_inv [OF assms(1)] by (auto simp: calls_inv_def)
  have "ConfirmHasChunk sm f i \<and> announced sm f i"
    using assms(2) promised [of "Upload_Done f (Return m)"] promised [of "Receive_Done f i (Return ())"] by auto
  then show ?thesis by (simp add: run_Asking [OF wf])
qed

theorem completed_calls_visible_witness:
  "\<exists>sm fs. calls_run (sm, fs, [Receive_Done ''f'' 0 (Return ())])
    \<and> run_call (Asking ''f'' 0) (sm, fs) = (Answered ''f'' 0 (Return (True, True)), sm, fs)"
proof -
  obtain sm where sm: "NewStorageManager (\<lambda>x. x) 1 ''data'' (no_faults []) = Return sm" by (rule fresh_sample)
  note fresh = fresh_manager [OF close_float_id sm]
  obtain sm' fs' where r: "ReceiveChunk ''f'' 0 [9] (ComputeHash [9]) sm (no_faults []) = ((sm', fs'), Return ())"
    using receive_faultless [OF fresh(1) no_faults_faultless] fresh(3) by fastforce
  have "calls_run (sm, no_faults [], [] @ [Receiving ''f'' 0 [9] (ComputeHash [9])])"
    by (rule calls_run.called [OF calls_run.created [OF close_float_id sm]]) simp
  from calls_run_alone [OF this run_Receiving [OF fresh(1) r]]
  have run: "calls_run (sm', fs', [Receive_Done ''f'' 0 (Return ())])" by simp
  show ?thesis using completed_calls_visible [OF run, of "''f''" _ 0] run by auto
qed



text \<open>
  C24: There is a window in which a stored chunk is denied. While a peer uploads its first file,
  between the end of the split and the first insertion into the filter, the store confirms
  the first chunk and serves its bytes, but a query for it is answered with no twice: the
  filter says no, and the store is not asked.
\<close>

theorem upload_hides_chunks_meanwhile:
  assumes "close_float fl" and "NewStorageManager fl p base fs = Return sm" and "faultless fs" and "base \<noteq> []"
    and "d \<noteq> []" and "int (length d) \<le> max_file"
  shows "\<exists>sm' fs' m chunks. calls_run (sm', fs', [Upload_Adding f m chunks])
    \<and> ConfirmHasChunk sm' f 0 \<and> DownloadChunk sm' fs' f 0 = Return (piece d 0, ComputeHash (piece d 0))
    \<and> run_call (Asking f 0) (sm', fs') = (Answered f 0 (Return (False, False)), sm', fs')"
  using upload_window [OF assms] by blast

theorem upload_hides_chunks_meanwhile_witness:
  "\<exists>sm' fs' m chunks. calls_run (sm', fs', [Upload_Adding ''f'' m chunks])
    \<and> ConfirmHasChunk sm' ''f'' 0
    \<and> run_call (Asking ''f'' 0) (sm', fs') = (Answered ''f'' 0 (Return (False, False)), sm', fs')"
proof -
  obtain sm where sm: "NewStorageManager (\<lambda>x. x) 1 ''data'' (no_faults []) = Return sm" by (rule fresh_sample)
  show ?thesis
    using upload_hides_chunks_meanwhile [OF close_float_id sm no_faults_faultless, of "[1]" "''f''"]
    by (auto simp: max_file_def)
qed

end
