(* ===== verification/Peer_Threads.thy ===== *)
theory Peer_Threads
  imports Peer_System Router_Threads Storage_Threads
begin

text \<open>
  The whole peer at the grain of its locks. In \<open>peer_run\<close> a route request or an upload is one step;
  here each of them is in progress for several steps, between which the connecting goroutines,
  notifications, invalidations and all other requests run. Such a run projects to the runs
  of its parts: the router under changes of this peer's graph, and the storage manager.
\<close>

section \<open>Runs at the grain of the locks\<close>



section \<open>Projections\<close>






section \<open>Routes in a snapshot of stars\<close>




section \<open>A sample run\<close>




section \<open>Results\<close>








end
