(* ===== verification/Filter_Locks.thy ===== *)
theory Filter_Locks
  imports Bloom_Filter
begin

text \<open>
  The locks of \<open>BloomFilter.Merge\<close>. Every other operation of a filter takes one lock, but a merge
  takes the write lock of its receiver and then, still holding it, the read lock of its
  argument. Here several merges among a list of filters run concurrently, with the rules of
  \<open>sync.RWMutex\<close>: a writer waits for readers and writers, a reader waits for a writer that
  holds the lock or is waiting for it, and no lock may be taken twice by one goroutine.
\<close>

section \<open>Merges and their steps\<close>

datatype merge_pc = Merge_Start | Lock_Wait | Write_Held | Both_Held | Merged "(error, unit) outcome"

text \<open>The merge of the filter \<open>mt_from\<close> into the filter \<open>mt_into\<close>, both given by their positions.\<close>

record merge_task =
  mt_into :: nat
  mt_from :: nat
  mt_pc :: merge_pc

definition write_locked :: "merge_task list \<Rightarrow> nat \<Rightarrow> bool" where
  "write_locked ts k \<longleftrightarrow> (\<exists>t \<in> set ts. mt_into t = k \<and> (mt_pc t = Write_Held \<or> mt_pc t = Both_Held))"

definition read_locked :: "merge_task list \<Rightarrow> nat \<Rightarrow> bool" where
  "read_locked ts k \<longleftrightarrow> (\<exists>t \<in> set ts. mt_from t = k \<and> mt_pc t = Both_Held)"

definition write_wanted :: "merge_task list \<Rightarrow> nat \<Rightarrow> bool" where
  "write_wanted ts k \<longleftrightarrow> (\<exists>t \<in> set ts. mt_into t = k \<and> mt_pc t = Lock_Wait)"

text \<open>The next step of the \<open>i\<close>-th merge, or \<open>None\<close> when it is blocked or has returned.\<close>

definition merge_step :: "bloom_filter list \<Rightarrow> merge_task list \<Rightarrow> nat \<Rightarrow> (bloom_filter list \<times> merge_task list) option" where
  "merge_step fs ts i =
     (let t = ts ! i; goto = (\<lambda>pc. ts[i := t\<lparr>mt_pc := pc\<rparr>]) in
      case mt_pc t of
        Merge_Start \<Rightarrow> Some (fs, goto Lock_Wait)
      | Lock_Wait \<Rightarrow>
          if write_locked ts (mt_into t) \<or> read_locked ts (mt_into t) then None else Some (fs, goto Write_Held)
      | Write_Held \<Rightarrow>
          if write_locked ts (mt_from t) \<or> write_wanted ts (mt_from t) then None else Some (fs, goto Both_Held)
      | Both_Held \<Rightarrow>
          (case Merge (fs ! mt_into t) (fs ! mt_from t) of
             Return bf \<Rightarrow> Some (fs[mt_into t := bf], goto (Merged (Return ())))
           | Fail e \<Rightarrow> Some (fs, goto (Merged (Fail e)))
           | Panic p \<Rightarrow> Some (fs, goto (Merged (Panic p))))
      | Merged r \<Rightarrow> None)"

inductive merge_run :: "bloom_filter list \<Rightarrow> merge_task list \<Rightarrow> bloom_filter list \<times> merge_task list \<Rightarrow> bool" for fs0 ts0 where
  all_started: "\<forall>t \<in> set ts0. mt_pc t = Merge_Start \<Longrightarrow> merge_run fs0 ts0 (fs0, ts0)"
| merge_stepped: "merge_run fs0 ts0 (fs, ts) \<Longrightarrow> i < length ts \<Longrightarrow> merge_step fs ts i = Some s \<Longrightarrow> merge_run fs0 ts0 s"

fun pc_work :: "merge_pc \<Rightarrow> nat" where
  "pc_work Merge_Start = 4"
| "pc_work Lock_Wait = 3"
| "pc_work Write_Held = 2"
| "pc_work Both_Held = 1"
| "pc_work (Merged r) = 0"

definition merge_work :: "merge_task list \<Rightarrow> nat" where
  "merge_work ts = (\<Sum>t\<leftarrow>ts. pc_work (mt_pc t))"

section \<open>Steps\<close>

lemma merge_step_task:
  assumes "merge_step fs ts i = Some (fs', ts')"
  obtains pc where "ts' = ts[i := (ts ! i)\<lparr>mt_pc := pc\<rparr>]" "pc_work pc < pc_work (mt_pc (ts ! i))"
    "pc = Write_Held \<Longrightarrow> \<not> write_locked ts (mt_into (ts ! i)) \<and> \<not> read_locked ts (mt_into (ts ! i))"
    "pc = Both_Held \<Longrightarrow> mt_pc (ts ! i) = Write_Held \<and> \<not> write_locked ts (mt_from (ts ! i))"
    "\<And>r. pc = Merged r \<Longrightarrow> mt_pc (ts ! i) = Both_Held"
proof (cases "mt_pc (ts ! i)")
  case Merge_Start
  then show thesis using assms by (intro that [of Lock_Wait]) (auto simp: merge_step_def Let_def)
next
  case Lock_Wait
  then show thesis using assms by (intro that [of Write_Held]) (auto simp: merge_step_def Let_def split: if_splits)
next
  case Write_Held
  then show thesis using assms by (intro that [of Both_Held]) (auto simp: merge_step_def Let_def split: if_splits)
next
  case Both_Held
  obtain r where "ts' = ts[i := (ts ! i)\<lparr>mt_pc := Merged r\<rparr>]"
    using assms Both_Held by (auto simp: merge_step_def Let_def split: outcome.splits)
  then show thesis using Both_Held by (intro that [of "Merged r"]) auto
qed (use assms in \<open>simp add: merge_step_def\<close>)

lemma merge_work_update:
  "i < length ts \<Longrightarrow> merge_work (ts[i := t]) + pc_work (mt_pc (ts ! i)) = merge_work ts + pc_work (mt_pc t)"
proof (induction ts arbitrary: i)
  case (Cons a ts)
  then show ?case by (cases i) (auto simp: merge_work_def)
qed simp

lemma merge_step_work:
  assumes "i < length ts" and "merge_step fs ts i = Some (fs', ts')"
  shows "merge_work ts' < merge_work ts"
proof -
  obtain pc where "ts' = ts[i := (ts ! i)\<lparr>mt_pc := pc\<rparr>]" "pc_work pc < pc_work (mt_pc (ts ! i))"
    using assms(2) by (rule merge_step_task)
  then show ?thesis using merge_work_update [OF assms(1), of "(ts ! i)\<lparr>mt_pc := pc\<rparr>"] by simp
qed

text \<open>Who waits for whom never changes: the positions of the filters stay.\<close>

definition same_merges :: "merge_task list \<Rightarrow> merge_task list \<Rightarrow> bool" where
  "same_merges ts ts' \<longleftrightarrow> map (\<lambda>t. (mt_into t, mt_from t)) ts' = map (\<lambda>t. (mt_into t, mt_from t)) ts"

lemma merge_step_same: "merge_step fs ts i = Some (fs', ts') \<Longrightarrow> i < length ts \<Longrightarrow> same_merges ts ts'"
proof -
  assume st: "merge_step fs ts i = Some (fs', ts')" and i: "i < length ts"
  obtain pc where "ts' = ts[i := (ts ! i)\<lparr>mt_pc := pc\<rparr>]" by (rule merge_step_task [OF st])
  then show ?thesis using i by (auto simp: same_merges_def map_update intro: list_update_same_conv [THEN iffD2])
qed

lemma merge_run_same: "merge_run fs0 ts0 (fs, ts) \<Longrightarrow> same_merges ts0 ts"
proof (induction "(fs, ts)" arbitrary: fs ts rule: merge_run.induct)
  case all_started
  then show ?case by (simp add: same_merges_def)
next
  case (merge_stepped fs1 ts1 i)
  then show ?case using merge_step_same [of fs1 ts1 i] by (auto simp: same_merges_def)
qed

section \<open>Progress when the locks are ordered\<close>

definition ordered_merges :: "merge_task list \<Rightarrow> bool" where
  "ordered_merges ts \<longleftrightarrow> (\<forall>t \<in> set ts. mt_into t < mt_from t)"

definition merge_done :: "merge_task \<Rightarrow> bool" where
  "merge_done t \<longleftrightarrow> (\<exists>r. mt_pc t = Merged r)"

lemma enabled_nth:
  assumes "t \<in> set ts" and "\<And>i. ts ! i = t \<Longrightarrow> merge_step fs ts i \<noteq> None"
  shows "\<exists>i < length ts. merge_step fs ts i \<noteq> None"
  using assms by (metis in_set_conv_nth)

lemma ordered_progress:
  assumes "ordered_merges ts" and "\<exists>t \<in> set ts. \<not> merge_done t"
  shows "\<exists>i < length ts. merge_step fs ts i \<noteq> None"
proof (cases "\<exists>t \<in> set ts. mt_pc t = Both_Held \<or> mt_pc t = Merge_Start")
  case True
  then obtain t where "t \<in> set ts" "mt_pc t = Both_Held \<or> mt_pc t = Merge_Start" by blast
  then show ?thesis
    by (intro enabled_nth [of t]) (auto simp: merge_step_def Let_def split: outcome.splits)
next
  case none: False
  then have no_reader: "\<not> read_locked ts k" for k by (auto simp: read_locked_def)
  have holder: "write_locked ts k \<longleftrightarrow> (\<exists>t \<in> set ts. mt_into t = k \<and> mt_pc t = Write_Held)" for k
    using none by (auto simp: write_locked_def)
  let ?H = "{mt_into t | t. t \<in> set ts \<and> mt_pc t = Write_Held}"
  have enabled: "\<exists>i < length ts. merge_step fs ts i \<noteq> None" if "t \<in> set ts" "mt_pc t = Lock_Wait" "\<not> write_locked ts (mt_into t)" for t
    using that no_reader by (intro enabled_nth [of t]) (auto simp: merge_step_def Let_def)
  show ?thesis
  proof (cases "?H = {}")
    case True
    obtain t where t: "t \<in> set ts" "\<not> merge_done t" using assms(2) by blast
    then have "mt_pc t = Lock_Wait" using none True by (cases "mt_pc t") (auto simp: merge_done_def)
    moreover have "\<not> write_locked ts (mt_into t)" using True holder by auto
    ultimately show ?thesis using enabled t(1) by blast
  next
    case False
    have "finite ?H" by simp
    from Max_in [OF this False] obtain t where t: "t \<in> set ts" "mt_pc t = Write_Held" "mt_into t = Max ?H" by auto
    have less: "mt_into t < mt_from t" using assms(1) t(1) by (simp add: ordered_merges_def)
    have free: "\<not> write_locked ts (mt_from t)"
    proof
      assume "write_locked ts (mt_from t)"
      then obtain ta where "ta \<in> set ts" "mt_into ta = mt_from t" "mt_pc ta = Write_Held" using holder by blast
      then have "mt_from t \<in> ?H" by force
      then have "mt_from t \<le> Max ?H" by (rule Max_ge [OF \<open>finite ?H\<close>])
      then show False using less t(3) by simp
    qed
    show ?thesis
    proof (cases "write_wanted ts (mt_from t)")
      case True
      then show ?thesis using enabled free by (auto simp: write_wanted_def)
    next
      case False
      then show ?thesis using free t by (intro enabled_nth [OF t(1)]) (auto simp: merge_step_def Let_def)
    qed
  qed
qed

section \<open>Mutual exclusion\<close>

text \<open>While one merge holds the write lock of a filter, no other holds a lock of it.\<close>

definition locks_exclusive :: "merge_task list \<Rightarrow> bool" where
  "locks_exclusive ts \<longleftrightarrow> (\<forall>i < length ts. \<forall>j < length ts. mt_pc (ts ! i) = Write_Held \<or> mt_pc (ts ! i) = Both_Held \<longrightarrow>
     (i \<noteq> j \<longrightarrow> mt_pc (ts ! j) = Write_Held \<or> mt_pc (ts ! j) = Both_Held \<longrightarrow> mt_into (ts ! j) \<noteq> mt_into (ts ! i))
     \<and> (mt_pc (ts ! j) = Both_Held \<longrightarrow> mt_from (ts ! j) \<noteq> mt_into (ts ! i)))"

lemma unlocked_nth:
  "\<not> write_locked ts k \<Longrightarrow> j < length ts \<Longrightarrow> mt_into (ts ! j) = k \<Longrightarrow> mt_pc (ts ! j) \<noteq> Write_Held \<and> mt_pc (ts ! j) \<noteq> Both_Held"
  "\<not> read_locked ts k \<Longrightarrow> j < length ts \<Longrightarrow> mt_from (ts ! j) = k \<Longrightarrow> mt_pc (ts ! j) \<noteq> Both_Held"
  unfolding write_locked_def read_locked_def using nth_mem by blast+

lemma locks_exclusive_step:
  assumes "locks_exclusive ts" and i: "i < length ts" and st: "merge_step fs ts i = Some (fs', ts')"
  shows "locks_exclusive ts'"
proof -
  obtain pc where pc: "ts' = ts[i := (ts ! i)\<lparr>mt_pc := pc\<rparr>]" "pc_work pc < pc_work (mt_pc (ts ! i))"
    "pc = Write_Held \<Longrightarrow> \<not> write_locked ts (mt_into (ts ! i)) \<and> \<not> read_locked ts (mt_into (ts ! i))"
    "pc = Both_Held \<Longrightarrow> mt_pc (ts ! i) = Write_Held \<and> \<not> write_locked ts (mt_from (ts ! i))"
    by (rule merge_step_task [OF st]) blast
  have old: "\<And>j k. j < length ts \<Longrightarrow> k < length ts \<Longrightarrow> mt_pc (ts ! j) = Write_Held \<or> mt_pc (ts ! j) = Both_Held \<Longrightarrow>
     (j \<noteq> k \<longrightarrow> mt_pc (ts ! k) = Write_Held \<or> mt_pc (ts ! k) = Both_Held \<longrightarrow> mt_into (ts ! k) \<noteq> mt_into (ts ! j))
     \<and> (mt_pc (ts ! k) = Both_Held \<longrightarrow> mt_from (ts ! k) \<noteq> mt_into (ts ! j))"
    using assms(1) unfolding locks_exclusive_def by blast
  have held: "mt_into (ts ! j) \<noteq> mt_into (ts ! i) \<and> (mt_pc (ts ! j) = Both_Held \<longrightarrow> mt_from (ts ! j) \<noteq> mt_into (ts ! i))"
    if "pc = Write_Held \<or> pc = Both_Held" "j < length ts" "j \<noteq> i" "mt_pc (ts ! j) = Write_Held \<or> mt_pc (ts ! j) = Both_Held" for j
  proof (cases "pc = Write_Held")
    case True
    then show ?thesis using pc(3) unlocked_nth [of ts] that by blast
  next
    case False
    then have "mt_pc (ts ! i) = Write_Held" using that(1) pc(4) by blast
    then show ?thesis using old [OF i that(2)] that(3,4) by blast
  qed
  have free: "mt_into (ts ! j) \<noteq> mt_from (ts ! i)"
    if "pc = Both_Held" "j < length ts" "mt_pc (ts ! j) = Write_Held \<or> mt_pc (ts ! j) = Both_Held" for j
    using pc(4) unlocked_nth(1) [of ts] that by blast
  have self: "mt_from (ts ! i) \<noteq> mt_into (ts ! i)" if "pc = Both_Held"
    using free [OF that i] pc(4) [OF that] by auto
  show ?thesis
    unfolding locks_exclusive_def pc(1) length_list_update
  proof (intro allI impI)
    fix j k
    assume jk: "j < length ts" "k < length ts"
      and hj: "mt_pc (ts[i := (ts ! i)\<lparr>mt_pc := pc\<rparr>] ! j) = Write_Held \<or> mt_pc (ts[i := (ts ! i)\<lparr>mt_pc := pc\<rparr>] ! j) = Both_Held"
    consider "j = i" "k = i" | "j = i" "k \<noteq> i" | "j \<noteq> i" "k = i" | "j \<noteq> i" "k \<noteq> i" by blast
    then show "(j \<noteq> k \<longrightarrow> mt_pc (ts[i := (ts ! i)\<lparr>mt_pc := pc\<rparr>] ! k) = Write_Held \<or> mt_pc (ts[i := (ts ! i)\<lparr>mt_pc := pc\<rparr>] ! k) = Both_Held
          \<longrightarrow> mt_into (ts[i := (ts ! i)\<lparr>mt_pc := pc\<rparr>] ! k) \<noteq> mt_into (ts[i := (ts ! i)\<lparr>mt_pc := pc\<rparr>] ! j))
        \<and> (mt_pc (ts[i := (ts ! i)\<lparr>mt_pc := pc\<rparr>] ! k) = Both_Held
          \<longrightarrow> mt_from (ts[i := (ts ! i)\<lparr>mt_pc := pc\<rparr>] ! k) \<noteq> mt_into (ts[i := (ts ! i)\<lparr>mt_pc := pc\<rparr>] ! j))"
    proof cases
      case 1
      then show ?thesis using self i by simp
    next
      case 2
      then show ?thesis using hj held [OF _ jk(2)] i by auto
    next
      case 3
      then show ?thesis using hj held [OF _ jk(1)] free [OF _ jk(1)] i by auto
    next
      case 4
      then show ?thesis using hj old [OF jk] by simp
    qed
  qed
qed

lemma merge_run_exclusive: "merge_run fs0 ts0 (fs, ts) \<Longrightarrow> locks_exclusive ts"
proof (induction "(fs, ts)" arbitrary: fs ts rule: merge_run.induct)
  case all_started
  then show ?case by (auto simp: locks_exclusive_def dest!: nth_mem)
next
  case (merge_stepped fs1 ts1 i)
  then show ?case using locks_exclusive_step by blast
qed

section \<open>Results\<close>

text \<open>
  C32: Merges that respect an order of the filters never deadlock. If every merge goes from a later
  filter into an earlier one, then in every state that any number of concurrent merges can
  reach, the locks exclude each other, some merge can go on unless all have returned, and
  every step leaves less to do: all merges return.
\<close>

theorem ordered_merges_return:
  assumes "merge_run fs0 ts0 (fs, ts)" and "ordered_merges ts0"
  shows "locks_exclusive ts
    \<and> ((\<exists>t \<in> set ts. \<not> merge_done t) \<longrightarrow> (\<exists>i < length ts. merge_step fs ts i \<noteq> None))
    \<and> (\<forall>i fs' ts'. i < length ts \<longrightarrow> merge_step fs ts i = Some (fs', ts') \<longrightarrow> merge_work ts' < merge_work ts)"
proof -
  have eq: "(\<lambda>t. (mt_into t, mt_from t)) ` set ts = (\<lambda>t. (mt_into t, mt_from t)) ` set ts0"
    using merge_run_same [OF assms(1)] unfolding same_merges_def by (metis set_map)
  have "mt_into t < mt_from t" if "t \<in> set ts" for t
  proof -
    have "(mt_into t, mt_from t) \<in> (\<lambda>t. (mt_into t, mt_from t)) ` set ts0" using that by (simp add: eq [symmetric])
    then show ?thesis using assms(2) by (auto simp: ordered_merges_def)
  qed
  then have "ordered_merges ts" by (simp add: ordered_merges_def)
  then show ?thesis using ordered_progress merge_step_work merge_run_exclusive [OF assms(1)] by blast
qed

definition new_merge :: "nat \<Rightarrow> nat \<Rightarrow> merge_task" where
  "new_merge k l = \<lparr>mt_into = k, mt_from = l, mt_pc = Merge_Start\<rparr>"

theorem ordered_merges_return_witness:
  "\<exists>i < 2. merge_step [] [new_merge 0 1, new_merge 0 2] i \<noteq> None"
proof -
  have run: "merge_run [] [new_merge 0 1, new_merge 0 2] ([], [new_merge 0 1, new_merge 0 2])"
    by (rule merge_run.all_started) (simp add: new_merge_def)
  have "ordered_merges [new_merge 0 1, new_merge 0 2]" by (simp add: ordered_merges_def new_merge_def)
  from ordered_merges_return [OF run this] show ?thesis by (simp add: merge_done_def new_merge_def numeral_2_eq_2)
qed

text \<open>A merge of a filter into itself waits for its own write lock.\<close>

lemma self_merge_stuck:
  assumes "merge_run fs0 ts0 (fs, ts)" and "i < length ts" and "mt_into (ts ! i) = mt_from (ts ! i)"
  shows "mt_pc (ts ! i) \<noteq> Both_Held \<and> \<not> merge_done (ts ! i)"
  using assms
proof (induction "(fs, ts)" arbitrary: fs ts rule: merge_run.induct)
  case all_started
  then show ?case by (auto simp: merge_done_def dest!: nth_mem)
next
  case (merge_stepped fs1 ts1 k)
  obtain pc where pc: "ts = ts1[k := (ts1 ! k)\<lparr>mt_pc := pc\<rparr>]"
    "pc = Both_Held \<Longrightarrow> mt_pc (ts1 ! k) = Write_Held \<and> \<not> write_locked ts1 (mt_from (ts1 ! k))"
    "\<And>r. pc = Merged r \<Longrightarrow> mt_pc (ts1 ! k) = Both_Held"
    by (rule merge_step_task [OF merge_stepped.hyps(4)]) blast
  show ?case
  proof (cases "k = i")
    case False
    then have "ts ! i = ts1 ! i" "length ts = length ts1" by (simp_all add: pc(1))
    then show ?thesis using merge_stepped.hyps(2) merge_stepped.prems by simp
  next
    case True
    have i: "i < length ts1" using merge_stepped.prems(1) pc(1) by simp
    then have t: "ts ! i = (ts1 ! i)\<lparr>mt_pc := pc\<rparr>" using True pc(1) by simp
    have own: "mt_into (ts1 ! i) = mt_from (ts1 ! i)" using merge_stepped.prems(2) t by simp
    then have old: "mt_pc (ts1 ! i) \<noteq> Both_Held" using merge_stepped.hyps(2) i by blast
    have "pc \<noteq> Both_Held"
    proof
      assume "pc = Both_Held"
      then show False using pc(2) True own unlocked_nth(1) [of ts1 "mt_from (ts1 ! i)" i] i by simp
    qed
    moreover have "\<forall>r. pc \<noteq> Merged r" using pc(3) True old by blast
    ultimately show ?thesis by (simp add: t merge_done_def)
  qed
qed

lemma crossing_merges:
  "merge_run [f, g] [new_merge 0 1, new_merge 1 0] ([f, g], [new_merge 0 1\<lparr>mt_pc := Write_Held\<rparr>, new_merge 1 0\<lparr>mt_pc := Write_Held\<rparr>])"
  (is "merge_run ?fs ?ts _")
proof -
  note simps = merge_step_def new_merge_def write_locked_def read_locked_def write_wanted_def
  have "merge_run ?fs ?ts (?fs, ?ts)" by (rule merge_run.all_started) (simp add: new_merge_def)
  from merge_run.merge_stepped [OF this, of 0]
  have "merge_run ?fs ?ts (?fs, [new_merge 0 1\<lparr>mt_pc := Lock_Wait\<rparr>, new_merge 1 0])" by (simp add: simps)
  from merge_run.merge_stepped [OF this, of 1]
  have "merge_run ?fs ?ts (?fs, [new_merge 0 1\<lparr>mt_pc := Lock_Wait\<rparr>, new_merge 1 0\<lparr>mt_pc := Lock_Wait\<rparr>])" by (simp add: simps)
  from merge_run.merge_stepped [OF this, of 0]
  have "merge_run ?fs ?ts (?fs, [new_merge 0 1\<lparr>mt_pc := Write_Held\<rparr>, new_merge 1 0\<lparr>mt_pc := Lock_Wait\<rparr>])" by (simp add: simps)
  from merge_run.merge_stepped [OF this, of 1] show ?thesis by (simp add: simps)
qed

text \<open>
  C33: Merges in opposite directions can deadlock, and a merge of a filter into itself always does.
  Two concurrent merges of two filters into each other can reach a state in which both hold
  a write lock and neither can go on; a merge of a filter into itself never gets both locks
  in any run, so it never returns.
\<close>

theorem unordered_merges_deadlock:
  "(\<exists>ts. merge_run [f, g] [new_merge 0 1, new_merge 1 0] ([f, g], ts)
      \<and> (\<forall>i < 2. mt_pc (ts ! i) = Write_Held \<and> merge_step [f, g] ts i = None))
   \<and> (merge_run fs0 ts0 (fs, ts) \<and> i < length ts \<and> mt_into (ts ! i) = mt_from (ts ! i)
      \<longrightarrow> mt_pc (ts ! i) \<noteq> Both_Held \<and> \<not> merge_done (ts ! i))"
proof (intro conjI impI)
  let ?ts = "[new_merge 0 1\<lparr>mt_pc := Write_Held\<rparr>, new_merge 1 0\<lparr>mt_pc := Write_Held\<rparr>]"
  have "\<forall>i < 2. mt_pc (?ts ! i) = Write_Held \<and> merge_step [f, g] ?ts i = None"
    by (simp add: less_2_cases_iff all_conj_distrib merge_step_def new_merge_def write_locked_def)
  then show "\<exists>ts. merge_run [f, g] [new_merge 0 1, new_merge 1 0] ([f, g], ts)
      \<and> (\<forall>i < 2. mt_pc (ts ! i) = Write_Held \<and> merge_step [f, g] ts i = None)"
    using crossing_merges by blast
qed (use self_merge_stuck in blast)+

theorem unordered_merges_deadlock_witness:
  "\<exists>ts. merge_run [clear_filter 4 3, clear_filter 4 3] [new_merge 0 1, new_merge 1 0] ([clear_filter 4 3, clear_filter 4 3], ts)
      \<and> (\<forall>i < 2. mt_pc (ts ! i) = Write_Held \<and> merge_step [clear_filter 4 3, clear_filter 4 3] ts i = None)"
  using unordered_merges_deadlock by blast

end
