(* ===== verification/Merkle_Reference.thy ===== *)
theory Merkle_Reference
  imports Merkle
begin

text \<open>
  The tree that \<open>BuildMerkleTree\<close> builds level by level, from the bottom, is the tree that the
  usual recursive definition gives from the top: a list of more than one digest is split at
  the largest power of two below its length.
\<close>

section \<open>The largest power of two below a number\<close>

function split_point :: "nat \<Rightarrow> nat" where
  "split_point n = (if n \<le> 2 then 1 else 2 * split_point ((n + 1) div 2))"
  by pat_completeness auto
termination
  by (relation "measure id") auto

declare split_point.simps [simp del]

lemma split_point_less: "1 < n \<Longrightarrow> split_point n < n"
proof (induction n rule: split_point.induct)
  case (1 n)
  show ?case
  proof (cases "n \<le> 2")
    case False
    then have "split_point ((n + 1) div 2) < (n + 1) div 2" using "1.IH" by simp
    then show ?thesis using False by (subst split_point.simps) simp
  qed (use "1.prems" in \<open>simp add: split_point.simps\<close>)
qed

text \<open>It is a power of two, and the next one is no longer below.\<close>

lemma split_point_power: "\<exists>k. split_point n = 2 ^ k"
proof (induction n rule: split_point.induct)
  case (1 n)
  show ?case
  proof (cases "n \<le> 2")
    case True
    then show ?thesis by (intro exI [of _ 0]) (simp add: split_point.simps)
  next
    case False
    then obtain k where "split_point ((n + 1) div 2) = 2 ^ k" using "1.IH" by blast
    then show ?thesis using False by (intro exI [of _ "Suc k"]) (simp add: split_point.simps [of n])
  qed
qed

lemma split_point_half: "1 < n \<Longrightarrow> n \<le> 2 * split_point n"
proof (induction n rule: split_point.induct)
  case (1 n)
  show ?case
  proof (cases "n \<le> 2")
    case False
    then have "(n + 1) div 2 \<le> 2 * split_point ((n + 1) div 2)" using "1.IH" by simp
    then show ?thesis using False by (subst split_point.simps) simp
  qed (use "1.prems" in \<open>simp add: split_point.simps\<close>)
qed

lemma split_point_pos: "0 < split_point n"
  using split_point_power [of n] by auto

section \<open>The reference tree\<close>

function reference_tree :: "merkle_node list \<Rightarrow> merkle_node" where
  "reference_tree ns =
     (if length ns \<le> 1 then hd ns
      else let k = split_point (length ns);
               l = reference_tree (take k ns);
               r = reference_tree (drop k ns)
           in MerkleNode (ComputeHash (str_bytes (Hash l @ Hash r))) (Some l) (Some r))"
  by pat_completeness auto
termination
  by (relation "measure length") (auto simp: split_point_less split_point_pos intro!: diff_less)

declare reference_tree.simps [simp del]

text \<open>The same on digests alone.\<close>

function merkle_tree_hash :: "string list \<Rightarrow> string" where
  "merkle_tree_hash hs =
     (if length hs = 0 then []
      else if length hs \<le> 1 then hd hs
      else let k = split_point (length hs)
           in ComputeHash (str_bytes (merkle_tree_hash (take k hs) @ merkle_tree_hash (drop k hs))))"
  by pat_completeness auto
termination
  by (relation "measure length") (auto simp: split_point_less split_point_pos min_less_iff_disj intro!: diff_less)

declare merkle_tree_hash.simps [simp del]

definition leaf :: "string \<Rightarrow> merkle_node" where
  "leaf h = MerkleNode h None None"

lemma next_level_append: "even (length ms) \<Longrightarrow> next_level (ms @ ns) = next_level ms @ next_level ns"
  by (induction ms rule: next_level.induct) auto

text \<open>A pass over a level does not change the reference tree above it.\<close>

lemma reference_tree_next_level: "1 < length ns \<Longrightarrow> reference_tree (next_level ns) = reference_tree ns"
proof (induction ns rule: reference_tree.induct)
  case (1 ns)
  let ?n = "length ns" and ?k = "split_point (length ns)"
  let ?l = "take ?k ns" and ?r = "drop ?k ns"
  show ?case
  proof (cases "?n = 2")
    case True
    then obtain a b where "ns = [a, b]" by (metis length_0_conv length_Suc_conv numeral_2_eq_2)
    then show ?thesis by (simp add: reference_tree.simps split_point.simps)
  next
    case False
    then have n: "2 < ?n" using "1.prems" by simp
    let ?h = "split_point ((?n + 1) div 2)"
    have k: "?k = 2 * ?h" using n by (simp add: split_point.simps [of ?n])
    have lt: "?k < ?n" and le: "?n \<le> 2 * ?k" using split_point_less split_point_half n by auto
    have ll: "length ?l = 2 * ?h" and lr: "length ?r = ?n - 2 * ?h" using k lt by simp_all
    have split: "next_level ns = next_level ?l @ next_level ?r"
      using next_level_append [of ?l ?r] ll by simp
    have lens: "length (next_level ?l) = ?h" "length (next_level ns) = (?n + 1) div 2" using ll by simp_all
    have "1 < ?n - 0" using n by simp
    have L: "reference_tree (next_level ?l) = reference_tree ?l"
      using "1.IH"(1) n ll split_point_pos [of "(?n + 1) div 2"] by simp
    have R: "reference_tree (next_level ?r) = reference_tree ?r"
    proof (cases "length ?r = 1")
      case True
      then obtain x where "?r = [x]" by (metis One_nat_def length_0_conv length_Suc_conv)
      then show ?thesis by simp
    next
      case False
      then show ?thesis using "1.IH"(2) n lt by simp
    qed
    have parts: "take ?h (next_level ns) = next_level ?l" "drop ?h (next_level ns) = next_level ?r"
      unfolding split using lens(1) by simp_all
    have "\<not> length (next_level ns) \<le> 1" using lens(2) n by simp
    then have "reference_tree (next_level ns)
        = (let l = reference_tree (next_level ?l); r = reference_tree (next_level ?r)
           in MerkleNode (ComputeHash (str_bytes (Hash l @ Hash r))) (Some l) (Some r))"
      unfolding reference_tree.simps [of "next_level ns"] lens(2) by (simp only: if_False Let_def parts)
    moreover have "\<not> ?n \<le> 1" using n by simp
    ultimately show ?thesis unfolding L R reference_tree.simps [of ns] by (simp only: if_False Let_def)
  qed
qed

lemma build_levels_reference: "ns \<noteq> [] \<Longrightarrow> build_levels ns = [reference_tree ns]"
proof (induction ns rule: build_levels.induct)
  case (1 ns)
  show ?case
  proof (cases "length ns > 1")
    case True
    then have "next_level ns \<noteq> []" by (cases ns rule: next_level.cases) auto
    then show ?thesis using "1.IH" True by (simp add: build_levels.simps [of ns] reference_tree_next_level)
  next
    case False
    then obtain n where "ns = [n]" using "1.prems" by (cases ns) auto
    then show ?thesis by (simp add: build_levels.simps [of "[n]"] reference_tree.simps)
  qed
qed

lemma Hash_reference_tree: "ns \<noteq> [] \<Longrightarrow> Hash (reference_tree ns) = merkle_tree_hash (map Hash ns)"
proof (induction ns rule: reference_tree.induct)
  case (1 ns)
  let ?k = "split_point (length ns)"
  show ?case
  proof (cases "length ns \<le> 1")
    case True
    then obtain n where "ns = [n]" using "1.prems" by (cases ns) auto
    then show ?thesis by (simp add: reference_tree.simps merkle_tree_hash.simps)
  next
    case False
    then have "take ?k ns \<noteq> []" "drop ?k ns \<noteq> []" using split_point_less [of "length ns"] split_point_pos [of "length ns"] by auto
    then show ?thesis
      using "1.IH"(1) [OF False refl] "1.IH"(2) [OF False refl refl] False
      by (simp add: reference_tree.simps [of ns] merkle_tree_hash.simps [of "map Hash ns"] Let_def take_map drop_map)
  qed
qed

section \<open>Results\<close>

text \<open>
  C30: The tree is the standard one. \<open>BuildMerkleTree\<close>, which combines pairs level by level and
  promotes an odd node, returns the tree that the recursive definition of Merkle trees
  describes: of more than one digest, the first \<open>k\<close> are in the left subtree and the others in
  the right, \<open>k\<close> being the largest power of two below their number; the root hash is the recursive
  hash, and an empty list has no tree and the empty root.
\<close>

theorem merkle_tree_is_standard:
  "BuildMerkleTree hs = (if hs = [] then None else Some (reference_tree (map leaf hs)))
    \<and> RootHash hs = merkle_tree_hash hs
    \<and> (1 < length hs \<longrightarrow> (\<exists>j. split_point (length hs) = 2 ^ j \<and> 2 ^ j < length hs \<and> length hs \<le> 2 ^ Suc j))"
proof -
  have tree: "BuildMerkleTree hs = (if hs = [] then None else Some (reference_tree (map leaf hs)))"
    using build_levels_reference [of "map leaf hs"] by (simp add: BuildMerkleTree_def leaf_def [abs_def])
  have "map Hash (map leaf hs) = hs" by (simp add: leaf_def comp_def)
  then have "RootHash hs = merkle_tree_hash hs"
    using tree Hash_reference_tree [of "map leaf hs"] by (auto simp: RootHash_def merkle_tree_hash.simps [of "[]"])
  moreover have "\<exists>j. split_point (length hs) = 2 ^ j \<and> 2 ^ j < length hs \<and> length hs \<le> 2 ^ Suc j" if "1 < length hs"
    using split_point_power [of "length hs"] split_point_less [OF that] split_point_half [OF that] by force
  ultimately show ?thesis using tree by blast
qed

theorem merkle_tree_is_standard_witness:
  "\<exists>j. split_point (length [''a'', ''b'', ''c'']) = 2 ^ j \<and> RootHash [''a'', ''b'', ''c'']
     = ComputeHash (str_bytes (ComputeHash (str_bytes ''ab'') @ ''c''))"
proof -
  have k: "split_point (Suc (Suc (Suc 0))) = 2" "split_point (Suc (Suc 0)) = 1" by (simp_all add: split_point.simps)
  have "merkle_tree_hash [''a'', ''b'', ''c''] = ComputeHash (str_bytes (ComputeHash (str_bytes ''ab'') @ ''c''))"
    by (simp add: merkle_tree_hash.simps k Let_def)
  then show ?thesis using merkle_tree_is_standard [of "[''a'', ''b'', ''c'']"] by auto
qed

end
