(* ===== verification/File_Transfer.thy ===== *)
theory File_Transfer
  imports Storage_Results
begin

text \<open>
  A file on its way from the peer it was uploaded to, chunk by chunk, to another peer: the
  client that asks one peer for the chunks and hands them to the other is described here; the
  repository offers the two operations and leaves the client to its users.
\<close>

section \<open>Fetching the chunks of a file\<close>

primrec fetch_all ::
  "storage_manager \<Rightarrow> file_system \<Rightarrow> string \<Rightarrow> nat list \<Rightarrow> storage_manager \<times> file_system
   \<Rightarrow> (error, storage_manager \<times> file_system) outcome" where
  "fetch_all from disk f [] st = Return st"
| "fetch_all from disk f (i # is) st =
     bind_outcome (DownloadChunk from disk f (word_of_nat i)) (\<lambda>(d, h).
     case ReceiveChunk f (word_of_nat i) d h (fst st) (snd st) of
       (st', r) \<Rightarrow> bind_outcome r (\<lambda>_. fetch_all from disk f is st'))"

text \<open>Files and directory stay as they were; the fetched chunks are in the store, the others unchanged.\<close>

definition has_pieces :: "string \<Rightarrow> bytes \<Rightarrow> nat set \<Rightarrow> storage_manager \<Rightarrow> bool" where
  "has_pieces f d A sm \<longleftrightarrow> (\<forall>i \<in> A. gm_get (cs_chunks (sm_Store sm)) (chunkStoreKey f (word_of_nat i)) = Some (piece d i))"

lemma fetch_all_works:
  assumes "\<forall>i \<in> set is. DownloadChunk from disk f (word_of_nat i) = Return (piece d i, ComputeHash (piece d i))"
    and "\<forall>i \<in> set is \<union> A. i < 2147483648"
    and "synced sm" and "faultless fs" and "cs_baseDir (sm_Store sm) \<noteq> []" and "has_pieces f d A sm"
  shows "\<exists>sm' fs'. fetch_all from disk f is (sm, fs) = Return (sm', fs') \<and> synced sm'
    \<and> cs_files (sm_Store sm') = cs_files (sm_Store sm) \<and> has_pieces f d (set is \<union> A) sm'"
  using assms
proof (induction "is" arbitrary: sm fs A)
  case (Cons i "is")
  let ?x = "piece d i"
  obtain sm1 fs1 r where rc: "ReceiveChunk f (word_of_nat i) ?x (ComputeHash ?x) sm fs = ((sm1, fs1), r)" by (metis surj_pair)
  note rec = receive_verified [OF Cons.prems(3-5) rc]
  have "has_pieces f d (insert i A) sm1"
    unfolding has_pieces_def
  proof
    fix j assume j: "j \<in> insert i A"
    have "(word_of_nat j :: i32) = word_of_nat i \<longleftrightarrow> j = i"
      by (rule word_of_nat_small_inject) (use Cons.prems(2) j in auto)
    then show "gm_get (cs_chunks (sm_Store sm1)) (chunkStoreKey f (word_of_nat j)) = Some (piece d j)"
      using j Cons.prems(6) rec(4) by (auto simp: has_pieces_def gm_simps chunkStoreKey_inject)
  qed
  moreover have "\<forall>j \<in> set is \<union> insert i A. j < 2147483648" using Cons.prems(2) by auto
  moreover have "cs_baseDir (sm_Store sm1) \<noteq> []" "cs_files (sm_Store sm1) = cs_files (sm_Store sm)"
    using rec(4) Cons.prems(5) by simp_all
  ultimately show ?case
    using Cons.IH [of "insert i A" sm1 fs1] Cons.prems(1) rec(1-3) rc by simp
qed simp

section \<open>Results\<close>

text \<open>
  A file transferred between peers. Upload a non-empty file to one peer without a write error
  and let another peer, on a working disk, receive its chunks from there in any order: all of
  them are accepted, and the receiver then serves each chunk exactly as the uploader does, so
  its chunks in order are the file. Yet the receiver cannot assemble it: receiving chunks
  leaves no metadata, and \<open>AssembleFile\<close> answers \<open>unknown file\<close> as before.
\<close>

lemma transferred_file:
  assumes "faultless fs" and "cs_baseDir (sm_Store up) \<noteq> []" and "synced up" and "d \<noteq> []" and "int (length d) \<le> max_file"
    and "UploadFile f name d up fs = ((up', fs'), r)"
    and "synced to" and "faultless fs2" and "cs_baseDir (sm_Store to) \<noteq> []" and "set is = {..<chunk_count d}"
  shows "\<exists>to' fs2'. fetch_all up' disk f is (to, fs2) = Return (to', fs2') \<and> synced to'
    \<and> (\<forall>i < chunk_count d. \<exists>x. DownloadChunk to' disk2 f (word_of_nat i) = Return (x, ComputeHash x)
         \<and> DownloadChunk up' disk f (word_of_nat i) = Return (x, ComputeHash x)
         \<and> MightHaveChunk to' f (word_of_nat i) = Return True)
    \<and> concat (map (\<lambda>i. case DownloadChunk to' disk2 f (word_of_nat i) of Return (x, h) \<Rightarrow> x) [0..<chunk_count d]) = d
    \<and> (GetFileMetadata (sm_Store to) f = None \<longrightarrow> AssembleFile (sm_Store to') disk2 f = Fail (''unknown file: '' @ f))"
proof -
  let ?n = "chunk_count d"
  have up: "DownloadChunk up' disk f (word_of_nat i) = Return (piece d i, ComputeHash (piece d i))" if "i < ?n" for i
    using upload_available(2) [OF assms(1-6) that, of disk] by blast
  obtain to' fs2' where to': "fetch_all up' disk f is (to, fs2) = Return (to', fs2')" "synced to'"
    "cs_files (sm_Store to') = cs_files (sm_Store to)" "has_pieces f d {..<?n} to'"
    using fetch_all_works [of "is" up' disk f d "{}" to fs2] up assms(7-10) chunk_count_limit [OF assms(5)]
    by (auto simp: has_pieces_def)
  have get: "DownloadChunk to' disk2 f (word_of_nat i) = Return (piece d i, ComputeHash (piece d i))
      \<and> MightHaveChunk to' f (word_of_nat i) = Return True" if "i < ?n" for i
  proof -
    have "gm_get (cs_chunks (sm_Store to')) (chunkStoreKey f (word_of_nat i)) = Some (piece d i)"
      using to'(4) that by (simp add: has_pieces_def)
    then show ?thesis
      using to'(2) by (simp add: DownloadChunk_def GetChunk_def synced_def ConfirmHasChunk_def store_HasChunk_def)
  qed
  have "concat (map (\<lambda>i. case DownloadChunk to' disk2 f (word_of_nat i) of Return (x, h) \<Rightarrow> x) [0..<?n])
      = concat (map (piece d) [0..<?n])"
    using get by (intro arg_cong [where f = concat] map_cong) auto
  also have "\<dots> = d" using chunk_count_covers [of d] by (simp add: concat_pieces)
  finally have whole: "concat (map (\<lambda>i. case DownloadChunk to' disk2 f (word_of_nat i) of Return (x, h) \<Rightarrow> x) [0..<?n]) = d" .
  have "AssembleFile (sm_Store to') disk2 f = Fail (''unknown file: '' @ f)" if "GetFileMetadata (sm_Store to) f = None"
    using that to'(3) by (simp add: AssembleFile_def GetFileMetadata_def)
  moreover have "\<forall>i < ?n. \<exists>x. DownloadChunk to' disk2 f (word_of_nat i) = Return (x, ComputeHash x)
      \<and> DownloadChunk up' disk f (word_of_nat i) = Return (x, ComputeHash x)
      \<and> MightHaveChunk to' f (word_of_nat i) = Return True"
    using get up by blast
  ultimately show ?thesis
    using to'(1,2) whole by (intro exI [of _ to'] exI [of _ fs2'] conjI impI) assumption+
qed

end
