(* ===== verification/Grpc_Stubs.thy ===== *)
theory Grpc_Stubs
  imports Grpc_Server
begin

text \<open>
  The stubs of the two services (\<open>proto/p2p_grpc.pb.go\<close>): on the side of the caller a method per
  call, which names the method and the type of the answer; on the side of the server the
  table of the service, from names to handlers, and the handlers, which decode the request and
  call the method of the server. In between is the gRPC library: \<open>Invoke\<close> and the decoders are
  parameters, and \<open>serves\<close> states what the library does with a registered table.
\<close>

section \<open>Messages, decoders, calls\<close>











section \<open>BootstrapService\<close>










section \<open>PeerService\<close>


































section \<open>The two servers of the program\<close>




section \<open>The library in between\<close>














section \<open>Results\<close>







end
