(* ===== verification/Remote_Transfer.thy ===== *)
theory Remote_Transfer
  imports File_Transfer Grpc_Stubs
begin

text \<open>
  A file on its way over remote calls. The client uploads a file to one peer, which answers with
  the digests of its chunks; then, chunk by chunk, it calls \<open>DownloadChunk\<close> of a peer and hands the
  bytes to the storage manager of another, which checks them against the announced digest.
  The repository offers the calls and \<open>ReceiveChunk\<close>; the client is described here. What it gets
  is first studied with a peer that may answer anything, then with the peer of the program.
\<close>

section \<open>The client\<close>





section \<open>Any peer\<close>







section \<open>The peer of the program\<close>






section \<open>Results\<close>






end
