(* ===== verification/Benchmark.thy ===== *)
theory Benchmark
  imports Dijkstra_Results Router Graph_Analyzer
begin

text \<open>
  The benchmark program (\<open>cmd/benchmark/main.go\<close>): a random graph with a ring through all its
  nodes, and the loop that asks the router for a thousand random routes and counts. The
  random source is a stream of naturals, of which \<open>Intn n\<close> takes the next modulo \<open>n\<close>.
\<close>

section \<open>The random graph\<close>

type_synonym rng = "nat \<Rightarrow> nat"

definition Intn :: "nat \<Rightarrow> rng \<Rightarrow> nat \<times> rng" where
  "Intn n rng = (rng 0 mod n, \<lambda>k. rng (Suc k))"

record bench_edges =
  be_edgeSet :: "(string, bool) gomap"
  be_edges :: "graph_edge list"

definition bench_key :: "i32 \<Rightarrow> i32 \<Rightarrow> string" where
  "bench_key from to = fmt_d (sint from) @ ''-'' @ fmt_d (sint to)"

definition addEdge :: "i32 \<Rightarrow> i32 \<Rightarrow> int \<Rightarrow> bench_edges \<Rightarrow> bench_edges" where
  "addEdge from to latency es =
     (let key = bench_key from to in
      if \<not> gm_get0 False (be_edgeSet es) key
      then es\<lparr>be_edgeSet := gm_set key True (be_edgeSet es),
              be_edges := be_edges es @ [\<lparr>ge_From = from, ge_To = to, ge_LatencyMs = latency\<rparr>]\<rparr>
      else es)"

text \<open>The edges of one node: \<open>m\<close> more draws. The node itself is skipped.\<close>

fun neighbor_loop :: "nat \<Rightarrow> nat \<Rightarrow> nat \<Rightarrow> rng \<times> bench_edges \<Rightarrow> rng \<times> bench_edges" where
  "neighbor_loop nodeCount i 0 (rng, es) = (rng, es)"
| "neighbor_loop nodeCount i (Suc m) (rng, es) =
     (let (k, rng) = Intn nodeCount rng;
          neighbor = word_of_nat k + 1
      in if neighbor = word_of_nat i then neighbor_loop nodeCount i m (rng, es)
         else let (l, rng) = Intn 50 rng;
                  latency = int l + 1
              in neighbor_loop nodeCount i m (rng, addEdge (word_of_nat i) neighbor latency es))"

fun random_edges :: "nat \<Rightarrow> nat list \<Rightarrow> rng \<times> bench_edges \<Rightarrow> rng \<times> bench_edges" where
  "random_edges nodeCount [] st = st"
| "random_edges nodeCount (i # is) (rng, es) =
     (let (k, rng) = Intn 5 rng;
          neighbors = 4 + k
      in random_edges nodeCount is (neighbor_loop nodeCount i neighbors (rng, es)))"

fun ring_edges :: "nat \<Rightarrow> nat list \<Rightarrow> rng \<times> bench_edges \<Rightarrow> rng \<times> bench_edges" where
  "ring_edges nodeCount [] st = st"
| "ring_edges nodeCount (i # is) (rng, es) =
     (let next = i mod nodeCount + 1;
          (l, rng) = Intn 20 rng;
          latency = int l + 5
      in ring_edges nodeCount is (rng, addEdge (word_of_nat i) (word_of_nat next) latency es))"

definition createRandomGraph :: "(nat \<Rightarrow> int) \<Rightarrow> rng \<Rightarrow> nat \<Rightarrow> graph \<times> rng" where
  "createRandomGraph now rng nodeCount =
     (let nodes = map (\<lambda>i. \<lparr>gn_ID = word_of_nat i, gn_Address = ''localhost:'' @ fmt_d (9000 + int i), gn_LastSeen = now i\<rparr>)
                    [1..<nodeCount + 1];
          (rng, es) = random_edges nodeCount [1..<nodeCount + 1] (rng, \<lparr>be_edgeSet = [], be_edges = []\<rparr>);
          (rng, es) = ring_edges nodeCount [1..<nodeCount + 1] (rng, es)
      in (\<lparr>GetNodeList = nodes, GetEdgeList = be_edges es\<rparr>, rng))"

section \<open>The measurement\<close>

text \<open>The clock readings of one iteration and the map orders of its search.\<close>

record bench_input =
  bi_get :: int
  bi_start :: int
  bi_clock :: "nat \<Rightarrow> int"
  bi_end :: int
  bi_order :: "nat \<Rightarrow> choices"

record bench_counts =
  bc_successCount :: int
  bc_cacheHits :: int
  bc_totalDuration :: int

text \<open>\<open>None\<close> would be a search that never returns, or panics.\<close>

fun bench_loop ::
  "(nat \<Rightarrow> bench_input) \<Rightarrow> graph \<Rightarrow> nat list \<Rightarrow> rng \<times> dijkstra_router \<times> bench_counts
   \<Rightarrow> (rng \<times> dijkstra_router \<times> bench_counts) option" where
  "bench_loop inp g [] st = Some st"
| "bench_loop inp g (i # is) (rng, router, c) =
     (let (a, rng) = Intn 100 rng; from = word_of_nat a + 1;
          (b, rng) = Intn 100 rng; to = word_of_nat b + 1
      in if from = to then bench_loop inp g is (rng, router, c)
         else
           let c = (if cache_Get (bi_get (inp i)) from to (GetCache router) \<noteq> None
                    then c\<lparr>bc_cacheHits := bc_cacheHits c + 1\<rparr> else c)
           in case CalculateRoute (bi_clock (inp i)) (bi_order (inp i)) g from to router of
                None \<Rightarrow> None
              | Some (router, Fail err) \<Rightarrow> bench_loop inp g is (rng, router, c)
              | Some (router, Panic q) \<Rightarrow> None
              | Some (router, Return _) \<Rightarrow>
                  let elapsed = bi_end (inp i) - bi_start (inp i)
                  in bench_loop inp g is (rng, router,
                       c\<lparr>bc_totalDuration := wrap64 (bc_totalDuration c + elapsed), bc_successCount := bc_successCount c + 1\<rparr>))"

text \<open>
  The lines of the report. An average of zero makes the quotient of the two floats infinite.
\<close>

definition bench_bar :: string where
  "bench_bar = concat (replicate 37 (map char_of [226, 148, 128 :: nat]))"

definition bench_results :: "(real \<Rightarrow> real) \<Rightarrow> nat \<Rightarrow> dijkstra_router \<Rightarrow> bench_counts \<Rightarrow> string" where
  "bench_results fl routeCount router c =
     (if bc_successCount c > 0 then
        let avgTime = go_quot (bc_totalDuration c) (bc_successCount c) in
        ''  Successful routes:  '' @ fmt_d (bc_successCount c) @ '' / '' @ fmt_d (int routeCount) @ newline
        @ ''  Cache hits:         '' @ fmt_d (bc_cacheHits c) @ newline
        @ ''  Cache entries:      '' @ fmt_d (int (cache_Size (GetCache router))) @ newline
        @ ''  Avg calculation:    '' @ fmt_duration avgTime @ newline
        @ ''  Routes/second:      ''
        @ (if avgTime = 0 then ''+Inf'' else fmt_f0 (fl (1000000000 / fl (of_int avgTime)))) @ newline @ newline
        @ (if avgTime < 100 * 1000000
           then ''  '' @ map char_of [226, 156, 133 :: nat] @ '' PASS: Avg route time < 100ms for 100 nodes'' @ newline
           else ''  '' @ map char_of [226, 157, 140 :: nat] @ '' FAIL: Avg route time >= 100ms for 100 nodes'' @ newline)
      else ''  No successful routes calculated (graph may be disconnected)'' @ newline)"

text \<open>The program: what it prints, with the final router and counters.\<close>

definition bench_main ::
  "(real \<Rightarrow> real) \<Rightarrow> choices \<Rightarrow> (nat \<Rightarrow> bench_input) \<Rightarrow> (nat \<Rightarrow> int) \<Rightarrow> rng
   \<Rightarrow> (string \<times> dijkstra_router \<times> bench_counts) option" where
  "bench_main fl cs inp now rng =
     (let (graph, rng) = createRandomGraph now rng 100;
          router = NewDijkstraRouter;
          out = box_title ''  DIJKSTRA ROUTING BENCHMARK        '' @ newline
            @ GetNetworkMetrics fl graph (NewGraphAnalyzer router)
            @ ''Running 1000 route calculations...'' @ newline @ bench_bar @ newline;
          routeCount = 1000
      in case bench_loop inp graph [0..<routeCount] (rng, router, \<lparr>bc_successCount = 0, bc_cacheHits = 0, bc_totalDuration = 0\<rparr>) of
           None \<Rightarrow> None
         | Some (rng, router, c) \<Rightarrow>
             Some (out @ newline @ box_title ''  BENCHMARK RESULTS                 '' @ newline
               @ bench_results fl routeCount router c @ newline
               @ ''  Bottleneck peers (avg latency > 30ms): '' @ fmt_d (int (length (FindBottlenecks cs graph 30)))
               @ '' found'' @ newline @ newline, router, c))"

section \<open>The graph is simple, bounded and contains the ring\<close>

definition bench_ids :: "nat \<Rightarrow> i32 set" where
  "bench_ids n = word_of_nat ` {1..n}"

definition edges_ok :: "nat \<Rightarrow> graph_edge list \<Rightarrow> bool" where
  "edges_ok n es \<longleftrightarrow> distinct (map (\<lambda>e. (ge_From e, ge_To e)) es)
     \<and> (\<forall>e \<in> set es. ge_From e \<in> bench_ids n \<and> ge_To e \<in> bench_ids n \<and> ge_From e \<noteq> ge_To e
          \<and> 1 \<le> ge_LatencyMs e \<and> ge_LatencyMs e \<le> 50)"

definition has_edge :: "i32 \<Rightarrow> i32 \<Rightarrow> graph_edge list \<Rightarrow> bool" where
  "has_edge f t es \<longleftrightarrow> (\<exists>e \<in> set es. ge_From e = f \<and> ge_To e = t)"

definition bench_inv :: "nat \<Rightarrow> bench_edges \<Rightarrow> bool" where
  "bench_inv n es \<longleftrightarrow> edges_ok n (be_edges es)
     \<and> (\<forall>f t. gm_get0 False (be_edgeSet es) (bench_key f t) \<longleftrightarrow> has_edge f t (be_edges es))"

lemma bench_key_inject [simp]: "bench_key a b = bench_key c d \<longleftrightarrow> a = c \<and> b = d"
proof
  assume "bench_key a b = bench_key c d"
  then have "sint a = sint c \<and> fmt_d (sint b) = fmt_d (sint d)"
    unfolding bench_key_def by (intro fmt_d_dash_split) simp
  then show "a = c \<and> b = d" by (auto intro: signed_word_eqI)
qed simp

interpretation bench_edge_key: key_encoding "\<lambda>(from, to). bench_key from to"
  by unfold_locales auto

lemma addEdge_inv:
  assumes "bench_inv n es" and "f \<in> bench_ids n" and "t \<in> bench_ids n" and "f \<noteq> t" and "1 \<le> l" and "l \<le> 50"
  shows "bench_inv n (addEdge f t l es)" and "set (be_edges es) \<subseteq> set (be_edges (addEdge f t l es))"
    and "has_edge f t (be_edges (addEdge f t l es))" and "length (be_edges (addEdge f t l es)) \<le> Suc (length (be_edges es))"
proof -
  have key: "gm_get0 False (be_edgeSet es) (bench_key f t) \<longleftrightarrow> has_edge f t (be_edges es)"
    using assms(1) by (simp add: bench_inv_def)
  have "bench_inv n (addEdge f t l es)"
  proof (cases "has_edge f t (be_edges es)")
    case False
    then have "(f, t) \<notin> (\<lambda>e. (ge_From e, ge_To e)) ` set (be_edges es)" by (auto simp: has_edge_def)
    then show ?thesis
      using False key assms by (auto simp: bench_inv_def addEdge_def Let_def edges_ok_def has_edge_def gm_get0_def gm_simps)
  qed (use assms(1) key in \<open>simp add: addEdge_def Let_def\<close>)
  then show "bench_inv n (addEdge f t l es)" "set (be_edges es) \<subseteq> set (be_edges (addEdge f t l es))"
    "has_edge f t (be_edges (addEdge f t l es))" "length (be_edges (addEdge f t l es)) \<le> Suc (length (be_edges es))"
    using key by (auto simp: addEdge_def Let_def has_edge_def)
qed

lemma small_word: "i < 2147483648 \<Longrightarrow> unat (word_of_nat i :: i32) = i"
  by (simp add: unat_of_nat)

lemma small_word_inject: "i < 2147483648 \<Longrightarrow> j < 2147483648 \<Longrightarrow> (word_of_nat i :: i32) = word_of_nat j \<longleftrightarrow> i = j"
  by (metis small_word)

lemma bench_idI: "1 \<le> i \<Longrightarrow> i \<le> n \<Longrightarrow> word_of_nat i \<in> bench_ids n"
  by (auto simp: bench_ids_def)

lemma neighbor_id: "k < n \<Longrightarrow> word_of_nat k + 1 \<in> bench_ids n"
  using bench_idI [of "Suc k" n] by (simp add: add.commute)

lemma neighbor_loop_inv:
  assumes "bench_inv n es" and "1 \<le> i" and "i \<le> n" and "neighbor_loop n i m (rng, es) = (rng', es')"
  shows "bench_inv n es'" and "set (be_edges es) \<subseteq> set (be_edges es')" and "length (be_edges es') \<le> length (be_edges es) + m"
proof -
  have "bench_inv n es' \<and> set (be_edges es) \<subseteq> set (be_edges es') \<and> length (be_edges es') \<le> length (be_edges es) + m"
    using assms(1,4)
  proof (induction m arbitrary: rng es)
    case (Suc m)
    let ?k = "rng 0 mod n" and ?rng = "\<lambda>k. rng (Suc k)"
    have k: "?k < n" using assms(2,3) by simp
    show ?case
    proof (cases "word_of_nat ?k + 1 = (word_of_nat i :: i32)")
      case True
      then have "neighbor_loop n i m (?rng, es) = (rng', es')" using Suc.prems(2) by (simp add: Intn_def)
      then show ?thesis using Suc.IH [OF Suc.prems(1)] by fastforce
    next
      case False
      let ?l = "int (rng (Suc 0) mod 50) + 1"
      let ?es = "addEdge (word_of_nat i) (word_of_nat ?k + 1) ?l es"
      have st: "neighbor_loop n i m (\<lambda>k. rng (Suc (Suc k)), ?es) = (rng', es')"
        using Suc.prems(2) False by (simp add: Intn_def Let_def)
      have l: "1 \<le> ?l" "?l \<le> 50" by (simp, presburger)
      note add = addEdge_inv [OF Suc.prems(1) bench_idI [OF assms(2,3)] neighbor_id [OF k] False [symmetric] l]
      show ?thesis using Suc.IH [OF add(1) st] add(2,4) by fastforce
    qed
  qed simp
  then show "bench_inv n es'" "set (be_edges es) \<subseteq> set (be_edges es')" "length (be_edges es') \<le> length (be_edges es) + m"
    by blast+
qed

lemma random_edges_inv:
  assumes "bench_inv n es" and "set is \<subseteq> {1..n}" and "random_edges n is (rng, es) = (rng', es')"
  shows "bench_inv n es' \<and> length (be_edges es') \<le> length (be_edges es) + 8 * length is"
  using assms
proof (induction "is" arbitrary: rng es)
  case (Cons i "is")
  obtain rng1 es1 where l: "neighbor_loop n i (4 + rng 0 mod 5) (\<lambda>k. rng (Suc k), es) = (rng1, es1)" by (metis surj_pair)
  then have "random_edges n is (rng1, es1) = (rng', es')" using Cons.prems(3) by (simp add: Intn_def)
  moreover note nl = neighbor_loop_inv [OF Cons.prems(1) _ _ l]
  moreover have "rng 0 mod 5 \<le> 4" by presburger
  ultimately show ?case using Cons.IH [of es1 rng1] Cons.prems(2) by fastforce
qed simp

lemma ring_edges_inv:
  assumes "1 < n" and "n < 2147483648" and "bench_inv n es" and "set is \<subseteq> {1..n}" and "ring_edges n is (rng, es) = (rng', es')"
  shows "bench_inv n es' \<and> set (be_edges es) \<subseteq> set (be_edges es') \<and> length (be_edges es') \<le> length (be_edges es) + length is
    \<and> (\<forall>i \<in> set is. has_edge (word_of_nat i) (word_of_nat (i mod n + 1)) (be_edges es'))"
  using assms(3-5)
proof (induction "is" arbitrary: rng es)
  case (Cons i "is")
  let ?t = "i mod n + 1" and ?l = "int (rng 0 mod 20) + 5"
  let ?es = "addEdge (word_of_nat i) (word_of_nat ?t) ?l es"
  have i: "1 \<le> i" "i \<le> n" using Cons.prems(2) by auto
  have t: "1 \<le> ?t" "?t \<le> n" "i \<noteq> ?t"
    using assms(1) i mod_less_divisor [of n i] by (simp_all, linarith) (cases "i = n"; simp)
  have l: "1 \<le> ?l" "?l \<le> 50" by (simp, presburger)
  have ne: "word_of_nat i \<noteq> (word_of_nat ?t :: i32)" using i t assms(2) small_word_inject [of i ?t] by simp
  note add = addEdge_inv [OF Cons.prems(1) bench_idI [OF i] bench_idI [OF t(1,2)] ne l]
  have "ring_edges n is (\<lambda>k. rng (Suc k), ?es) = (rng', es')" using Cons.prems(3) by (simp add: Intn_def Let_def)
  then have IH: "bench_inv n es'" "set (be_edges ?es) \<subseteq> set (be_edges es')" "length (be_edges es') \<le> length (be_edges ?es) + length is"
    "\<forall>i \<in> set is. has_edge (word_of_nat i) (word_of_nat (i mod n + 1)) (be_edges es')"
    using Cons.IH [OF add(1)] Cons.prems(2) by auto
  have "has_edge (word_of_nat i) (word_of_nat ?t) (be_edges es')" using add(3) IH(2) by (auto simp: has_edge_def)
  then show ?case using IH add(2,4) by auto
qed simp

lemma createRandomGraph_ok:
  assumes "1 < n" and "n < 2147483648" and "createRandomGraph now rng n = (g, rng')"
  shows "node_ids g = bench_ids n" and "edges_ok n (GetEdgeList g)" and "length (GetEdgeList g) \<le> 9 * n"
    and "\<And>i. 1 \<le> i \<Longrightarrow> i \<le> n \<Longrightarrow> has_edge (word_of_nat i) (word_of_nat (i mod n + 1)) (GetEdgeList g)"
    and "distinct (map gn_ID (GetNodeList g))"
proof -
  let ?is = "[1..<n + 1]"
  obtain rng1 es1 where r: "random_edges n ?is (rng, \<lparr>be_edgeSet = [], be_edges = []\<rparr>) = (rng1, es1)" by (metis surj_pair)
  obtain es2 where c: "ring_edges n ?is (rng1, es1) = (rng', es2)" "GetEdgeList g = be_edges es2"
    "GetNodeList g = map (\<lambda>i. \<lparr>gn_ID = word_of_nat i, gn_Address = ''localhost:'' @ fmt_d (9000 + int i), gn_LastSeen = now i\<rparr>) ?is"
    using assms(3) r by (auto simp: createRandomGraph_def Let_def split: prod.splits)
  have set_is: "set ?is = {1..n}" "length ?is = n" by auto
  have "bench_inv n \<lparr>be_edgeSet = [], be_edges = []\<rparr>"
    by (simp add: bench_inv_def edges_ok_def has_edge_def gm_get0_def gm_simps)
  from random_edges_inv [OF this _ r] have es1: "bench_inv n es1" "length (be_edges es1) \<le> 8 * n" using set_is by (simp_all del: upt_Suc)
  note ring = ring_edges_inv [OF assms(1,2) es1(1) _ c(1)]
  then show "edges_ok n (GetEdgeList g)" using set_is c(2) by (simp add: bench_inv_def del: upt_Suc)
  show "length (GetEdgeList g) \<le> 9 * n" using ring set_is es1(2) c(2) by (simp del: upt_Suc)
  show "has_edge (word_of_nat i) (word_of_nat (i mod n + 1)) (GetEdgeList g)" if "1 \<le> i" "i \<le> n" for i
    using ring set_is c(2) that by (simp del: upt_Suc)
  show "node_ids g = bench_ids n" unfolding node_ids_def bench_ids_def c(3) set_is(1) [symmetric] by (simp add: image_image del: upt_Suc)
  have "inj_on (word_of_nat :: nat \<Rightarrow> i32) (set ?is)"
    using assms(2) small_word_inject unfolding set_is(1) by (intro inj_onI) auto
  then show "distinct (map gn_ID (GetNodeList g))" unfolding c(3) by (simp add: distinct_map comp_def del: upt_Suc)
qed

text \<open>Along the ring every node is reached from every other.\<close>

lemma ring_walk:
  assumes "1 < n" and "n < 2147483648" and "createRandomGraph now rng n = (g, rng')" and "a < n"
  shows "\<exists>q. graph_walk g (word_of_nat (a + 1)) q (word_of_nat ((a + k) mod n + 1))"
proof (induction k)
  case 0
  then show ?case using assms(4) by (intro exI [of _ "[]"]) simp
next
  case (Suc k)
  note ok = createRandomGraph_ok [OF assms(1-3)]
  let ?i = "(a + k) mod n + 1"
  obtain q where q: "graph_walk g (word_of_nat (a + 1)) q (word_of_nat ?i)" using Suc by blast
  have i: "1 \<le> ?i" "?i \<le> n" using assms(1) mod_less_divisor [of n "a + k"] by linarith+
  have nxt: "?i mod n + 1 = (a + Suc k) mod n + 1" by (simp add: mod_Suc_eq)
  obtain e where e: "e \<in> set (GetEdgeList g)" "ge_From e = word_of_nat ?i" "ge_To e = word_of_nat (?i mod n + 1)"
    using ok(4) [OF i] by (auto simp: has_edge_def)
  have "ge_To e \<in> node_ids g" using ok(1,2) e(1) by (auto simp: edges_ok_def)
  then have "graph_walk g (word_of_nat ?i) [e] (word_of_nat (?i mod n + 1))" using e by simp
  with q have "graph_walk g (word_of_nat (a + 1)) (q @ [e]) (word_of_nat (?i mod n + 1))" unfolding graph_walk_append by blast
  then show ?case unfolding nxt by blast
qed

lemma bench_connected:
  assumes "1 < n" and "n < 2147483648" and "createRandomGraph now rng n = (g, rng')" and "u \<in> bench_ids n" and "v \<in> bench_ids n"
  shows "\<exists>q. graph_walk g u q v"
proof -
  obtain i j where ij: "1 \<le> i" "i \<le> n" "u = word_of_nat i" "1 \<le> j" "j \<le> n" "v = word_of_nat j"
    using assms(4,5) by (auto simp: bench_ids_def)
  have "(i - 1 + (n - (i - 1) + (j - 1))) mod n + 1 = j"
  proof -
    have "i - 1 + (n - (i - 1) + (j - 1)) = n + (j - 1)" using ij by simp
    then have "(i - 1 + (n - (i - 1) + (j - 1))) mod n = (j - 1) mod n" by simp
    also have "\<dots> = j - 1" using ij by (intro mod_less) linarith
    finally show ?thesis using ij by simp
  qed
  then show ?thesis
    using ring_walk [OF assms(1-3), of "i - 1" "n - (i - 1) + (j - 1)"] ij by simp
qed

lemma bench_graph_ok:
  assumes "1 < n" and "n < 2147483648" and "createRandomGraph now rng n = (g, rng')"
  shows "graph_ok 50 g"
proof -
  note ok = createRandomGraph_ok [OF assms]
  have "(word_of_nat i :: i32) \<noteq> -1" if "i \<le> n" for i
  proof
    assume "(word_of_nat i :: i32) = -1"
    then have "int i = sint (-1 :: i32)" using sint_small_nat [of i] that assms(2) by simp
    then show False by simp
  qed
  then have "-1 \<notin> bench_ids n" by (fastforce simp: bench_ids_def)
  moreover have "card (bench_ids n) \<le> n" unfolding bench_ids_def using card_image_le [of "{1..n}" word_of_nat] by simp
  then have "50 * int (card (bench_ids n)) < inf64" using assms(2) by (simp add: inf64_def max_int64_def)
  ultimately show ?thesis using ok(1,2) by (auto simp: graph_ok_def edges_ok_def list_all_iff)
qed

lemma bench_dijkstra:
  assumes "1 < n" and "n < 2147483648" and "createRandomGraph now rng n = (g, rng')" and "u \<in> bench_ids n" and "v \<in> bench_ids n"
  shows "\<exists>path latency. dijkstra ord g u v = Some (Return (path, latency))"
  using dijkstra_Return_iff [OF bench_graph_ok [OF assms(1-3)]] bench_connected [OF assms]
    createRandomGraph_ok(1) [OF assms(1-3)] assms(4,5) by blast

section \<open>The loop\<close>

text \<open>The iterations that ask for a route: those whose two draws differ.\<close>

definition asks :: "rng \<Rightarrow> nat \<Rightarrow> nat list" where
  "asks r m = filter (\<lambda>j. r (2 * j) mod 100 \<noteq> r (2 * j + 1) mod 100) [0..<m]"

lemma asks_Suc:
  "length (asks r (Suc m)) = (if r 0 mod 100 \<noteq> r 1 mod 100 then 1 else 0) + length (asks (\<lambda>k. r (Suc (Suc k))) m)"
proof -
  have "[0..<Suc m] = 0 # map Suc [0..<m]" by (simp add: upt_conv_Cons map_Suc_upt del: upt_Suc)
  then show ?thesis by (simp add: asks_def filter_map comp_def del: upt_Suc)
qed

lemma bench_loop_succeeds:
  assumes "\<And>ord u v. u \<in> bench_ids 100 \<Longrightarrow> v \<in> bench_ids 100 \<Longrightarrow> \<exists>path l. dijkstra ord g u v = Some (Return (path, l))"
  shows "\<exists>rng' dr' c'. bench_loop inp g is (rng, dr, c) = Some (rng', dr', c')
    \<and> bc_successCount c' = bc_successCount c + int (length (asks rng (length is)))
    \<and> bc_cacheHits c \<le> bc_cacheHits c' \<and> bc_cacheHits c' \<le> bc_cacheHits c + int (length (asks rng (length is)))"
proof (induction "is" arbitrary: rng dr c)
  case Nil
  then show ?case by (simp add: asks_def)
next
  case (Cons i "is")
  let ?from = "word_of_nat (rng 0 mod 100) + 1 :: i32" and ?to = "word_of_nat (rng 1 mod 100) + 1 :: i32"
  let ?rng = "\<lambda>k. rng (Suc (Suc k))"
  have ids: "?from \<in> bench_ids 100" "?to \<in> bench_ids 100" by (rule neighbor_id; simp)+
  have eq: "?from = ?to \<longleftrightarrow> rng 0 mod 100 = rng 1 mod 100"
    using small_word_inject [of "rng 0 mod 100" "rng 1 mod 100"] by (simp add: less_le_trans [of _ 100])
  show ?case
  proof (cases "?from = ?to")
    case True
    then have "bench_loop inp g (i # is) (rng, dr, c) = bench_loop inp g is (?rng, dr, c)"
      by (simp add: Intn_def Let_def)
    moreover have "length (asks rng (length (i # is))) = length (asks ?rng (length is))" using True eq by (simp add: asks_Suc)
    ultimately show ?thesis using Cons.IH [of ?rng dr c] by simp
  next
    case False
    let ?c = "if cache_Get (bi_get (inp i)) ?from ?to (GetCache dr) \<noteq> None then c\<lparr>bc_cacheHits := bc_cacheHits c + 1\<rparr> else c"
    obtain dr' r where r: "CalculateRoute (bi_clock (inp i)) (bi_order (inp i)) g ?from ?to dr = Some (dr', r)"
      using CalculateRoute_total by blast
    then have "\<exists>route. r = Return route"
      by (cases rule: CalculateRoute_cases) (use assms [OF ids, of "bi_order (inp i)"] in auto)
    then obtain route where route: "r = Return route" by blast
    let ?c' = "?c\<lparr>bc_totalDuration := wrap64 (bc_totalDuration ?c + (bi_end (inp i) - bi_start (inp i))),
      bc_successCount := bc_successCount ?c + 1\<rparr>"
    have "bench_loop inp g (i # is) (rng, dr, c) = bench_loop inp g is (?rng, dr', ?c')"
      using False r route by (simp add: Intn_def Let_def)
    moreover have "length (asks rng (length (i # is))) = 1 + length (asks ?rng (length is))" using False eq by (simp add: asks_Suc)
    ultimately show ?thesis using Cons.IH [of ?rng dr' ?c'] by (auto split: if_splits)
  qed
qed

text \<open>
  When the whole run takes less than the lifetime of a route, nothing in the cache expires, and
  every success is either a hit or a new entry.
\<close>

definition within_ttl :: "int \<Rightarrow> (nat \<Rightarrow> bench_input) \<Rightarrow> bool" where
  "within_ttl t0 inp \<longleftrightarrow> (\<forall>i. t0 \<le> bi_get (inp i) \<and> bi_get (inp i) \<le> t0 + 3600000000000
     \<and> (\<forall>k. t0 \<le> bi_clock (inp i) k \<and> bi_clock (inp i) k \<le> t0 + 3600000000000))"

definition fresh_cache :: "int \<Rightarrow> route_cache \<Rightarrow> bool" where
  "fresh_cache t0 rc \<longleftrightarrow> gm_wf (rc_routes rc) \<and> rc_ttl rc = 3600000000000
     \<and> (\<forall>e \<in> set (rc_routes rc). t0 + 3600000000000 \<le> ExpiresAt (snd e))"

lemma fresh_cache_Get:
  assumes "fresh_cache t0 rc" and "now \<le> t0 + 3600000000000"
  shows "cache_Get now f t rc = None \<longleftrightarrow> cacheKey f t \<notin> fst ` set (rc_routes rc)"
proof (cases "gm_get (rc_routes rc) (cacheKey f t)")
  case (Some cached)
  then have e: "(cacheKey f t, cached) \<in> set (rc_routes rc)" by (rule gm_get_SomeD)
  then have "t0 + 3600000000000 \<le> ExpiresAt cached" using assms(1) by (fastforce simp: fresh_cache_def)
  then have "cache_Get now f t rc = Some (cr_Route cached)" using Some assms(2) by (simp add: cache_Get_def)
  then show ?thesis using Some gm_get_None_iff [of "rc_routes rc" "cacheKey f t"] by simp
qed (simp add: cache_Get_def flip: gm_get_None_iff)

lemma fresh_cache_Set:
  assumes "fresh_cache t0 rc" and "t0 \<le> now"
  shows "fresh_cache t0 (cache_Set now r rc)"
  using assms by (auto simp: fresh_cache_def cache_Set_def Let_def set_gm_set)

lemma bench_loop_counts:
  assumes "within_ttl t0 inp" and "fresh_cache t0 (dr_cache dr)"
    and "bench_loop inp g is (rng, dr, c) = Some (rng', dr', c')"
  shows "bc_cacheHits c' + int (cache_Size (dr_cache dr')) - bc_successCount c'
    = bc_cacheHits c + int (cache_Size (dr_cache dr)) - bc_successCount c"
  using assms(2,3)
proof (induction "is" arbitrary: rng dr c)
  case (Cons i "is")
  let ?from = "word_of_nat (rng 0 mod 100) + 1 :: i32" and ?to = "word_of_nat (rng 1 mod 100) + 1 :: i32"
  let ?rng = "\<lambda>k. rng (Suc (Suc k))" and ?i = "inp i"
  let ?hit = "cache_Get (bi_get ?i) ?from ?to (dr_cache dr) \<noteq> None"
  let ?c = "if ?hit then c\<lparr>bc_cacheHits := bc_cacheHits c + 1\<rparr> else c"
  let ?c' = "?c\<lparr>bc_totalDuration := wrap64 (bc_totalDuration ?c + (bi_end ?i - bi_start ?i)), bc_successCount := bc_successCount ?c + 1\<rparr>"
  note get = fresh_cache_Get [OF Cons.prems(1)]
  have now: "bi_get ?i \<le> t0 + 3600000000000" "bi_clock ?i k \<le> t0 + 3600000000000" "t0 \<le> bi_clock ?i k" for k
    using assms(1) by (auto simp: within_ttl_def)
  have hit_iff: "?hit \<longleftrightarrow> cache_Get (bi_clock ?i 0) ?from ?to (dr_cache dr) \<noteq> None"
    using get [OF now(1), of ?from ?to] get [OF now(2) [of 0], of ?from ?to] by argo
  show ?case
  proof (cases "?from = ?to")
    case True
    then show ?thesis using Cons.IH [of dr ?rng c] Cons.prems by (simp add: Intn_def Let_def)
  next
    case False
    obtain dr1 r where r: "CalculateRoute (bi_clock ?i) (bi_order ?i) g ?from ?to dr = Some (dr1, r)"
      using CalculateRoute_total by blast
    from r show ?thesis
    proof (cases rule: CalculateRoute_cases)
      case (hit r')
      then have h: "?hit" using hit_iff by simp
      have "bench_loop inp g is (?rng, dr, ?c') = Some (rng', dr', c')"
        using Cons.prems(2) False r hit(3,4) by (simp add: Intn_def Let_def GetCache_def)
      then show ?thesis using Cons.IH [of dr ?rng ?c'] Cons.prems(1) h by simp
    next
      case (found path l r')
      then have h: "\<not> ?hit" using hit_iff by simp
      have st: "bench_loop inp g is (?rng, dr1, ?c') = Some (rng', dr', c')"
        using Cons.prems(2) False r found(4) by (simp add: Intn_def Let_def GetCache_def)
      have "cacheKey ?from ?to \<notin> fst ` set (rc_routes (dr_cache dr))" using found(2) get [OF now(2)] by simp
      then have "cache_Size (dr_cache dr1) = Suc (cache_Size (dr_cache dr))"
        using found(5,6) by (simp add: cache_Size_def cache_Set_def Let_def length_gm_set)
      then show ?thesis
        using Cons.IH [of dr1 ?rng ?c'] st h fresh_cache_Set [OF Cons.prems(1) now(3)] found(6) by simp
    next
      case (error e)
      then have h: "\<not> ?hit" using hit_iff by simp
      have "bench_loop inp g is (?rng, dr, ?c) = Some (rng', dr', c')"
        using Cons.prems(2) False r error(4,5) by (simp add: Intn_def Let_def GetCache_def)
      then show ?thesis using Cons.IH [of dr ?rng ?c] Cons.prems(1) h by simp
    qed (use False in simp)
  qed
qed simp

lemma fresh_cache_New: "fresh_cache t0 (dr_cache NewDijkstraRouter)"
  by (simp add: fresh_cache_def NewDijkstraRouter_def NewRouteCache_def)

section \<open>Results\<close>

text \<open>
  C36: The benchmark measures what it means to. Whatever the random source, the clock and the map
  orders, no route request of the benchmark fails: the run ends, and the successful routes
  are exactly the iterations whose two random peers differ, each hit of the cache among
  them. In a run that takes less than the hour for which a route is cached, the routes that were
  computed are exactly the entries of the cache at the end: hits and entries make up the
  successes.
\<close>

theorem benchmark_never_fails:
  "\<exists>out dr c. bench_main fl cs inp now rng = Some (out, dr, c)
     \<and> bc_successCount c = int (length (asks (snd (createRandomGraph now rng 100)) 1000))
     \<and> 0 \<le> bc_cacheHits c \<and> bc_cacheHits c \<le> bc_successCount c
     \<and> (within_ttl t0 inp \<longrightarrow> bc_cacheHits c + int (cache_Size (GetCache dr)) = bc_successCount c)"
proof -
  obtain g r where g: "createRandomGraph now rng 100 = (g, r)" by (metis surj_pair)
  let ?c = "\<lparr>bc_successCount = 0, bc_cacheHits = 0, bc_totalDuration = 0\<rparr>"
  obtain rng' dr c where l: "bench_loop inp g [0..<1000] (r, NewDijkstraRouter, ?c) = Some (rng', dr, c)"
    "bc_successCount c = int (length (asks r 1000))" "0 \<le> bc_cacheHits c" "bc_cacheHits c \<le> int (length (asks r 1000))"
    using bench_loop_succeeds [OF bench_dijkstra [OF _ _ g], of inp "[0..<1000]" r NewDijkstraRouter ?c] by auto
  have "bc_cacheHits c + int (cache_Size (GetCache dr)) = bc_successCount c" if "within_ttl t0 inp"
    using bench_loop_counts [OF that fresh_cache_New l(1)]
    by (simp add: GetCache_def cache_Size_def NewDijkstraRouter_def NewRouteCache_def)
  then show ?thesis using l by (simp add: bench_main_def g Let_def del: upt_Suc)
qed

text \<open>With a random source that repeats two draws, every request but the first is a hit.\<close>

definition bench_sample :: bench_input where
  "bench_sample = \<lparr>bi_get = 5, bi_start = 5, bi_clock = (\<lambda>_. 6), bi_end = 7, bi_order = (\<lambda>_. [])\<rparr>"

theorem benchmark_never_fails_witness:
  "\<exists>out dr c. bench_main (\<lambda>x. x) [] (\<lambda>_. bench_sample) (\<lambda>_. 0) (\<lambda>n. n) = Some (out, dr, c)
     \<and> bc_cacheHits c + int (cache_Size (GetCache dr)) = bc_successCount c"
  using benchmark_never_fails [of "\<lambda>x. x" "[]" "\<lambda>_. bench_sample" "\<lambda>_. 0" "\<lambda>n. n" 5]
  by (auto simp: within_ttl_def bench_sample_def)

text \<open>
  The benchmark graph is as described. With \<open>n\<close> nodes it has the peers 1 to \<open>n\<close>, no edge
  twice and none from a node to itself, latencies between 1 and 50 ms, at most nine edges
  per node, and an edge from each node to its successor on the ring; so the
  search finds a route from every peer to every other.
\<close>

lemma benchmark_graph_connected:
  assumes "1 < n" and "n < 2147483648" and "createRandomGraph now rng n = (g, rng')"
  shows "node_ids g = word_of_nat ` {1..n} \<and> distinct (map gn_ID (GetNodeList g))
    \<and> distinct (map (\<lambda>e. (ge_From e, ge_To e)) (GetEdgeList g)) \<and> length (GetEdgeList g) \<le> 9 * n
    \<and> (\<forall>e \<in> set (GetEdgeList g). ge_From e \<noteq> ge_To e \<and> 1 \<le> ge_LatencyMs e \<and> ge_LatencyMs e \<le> 50)
    \<and> (\<forall>u \<in> node_ids g. \<forall>v \<in> node_ids g. \<exists>path l. dijkstra ord g u v = Some (Return (path, l)))"
  using createRandomGraph_ok [OF assms] bench_dijkstra [OF assms] by (auto simp: edges_ok_def bench_ids_def)

end
